theory Spec2Isabelle
  imports Complex_Main
begin

section \<open>Text\<close>

text \<open>
  A Python \<open>str\<close> is modelled as a \<open>string\<close>, the UTF-8 bytes of the text. The letters
  that \<open>str.lower\<close> changes are taken to be the ASCII capitals; a code point outside
  ASCII is left as it is. Paths follow \<open>posixpath\<close>.
\<close>

definition lower_char :: "char \<Rightarrow> char" where
  "lower_char c =
     (if 65 \<le> (of_char c :: nat) \<and> (of_char c :: nat) \<le> 90
      then char_of ((of_char c :: nat) + 32) else c)"

definition lower :: "string \<Rightarrow> string" where
  "lower s = map lower_char s"

fun startswith :: "string \<Rightarrow> string \<Rightarrow> bool" where
  "startswith s [] = True"
| "startswith [] (c # cs) = False"
| "startswith (x # xs) (c # cs) = (x = c \<and> startswith xs cs)"

text \<open>\<open>contains sub s\<close> is Python's \<open>sub in s\<close> on strings.\<close>

fun contains :: "string \<Rightarrow> string \<Rightarrow> bool" where
  "contains sub [] = (sub = [])"
| "contains sub (x # xs) = (startswith (x # xs) sub \<or> contains sub xs)"

definition digit_char :: "nat \<Rightarrow> char" where
  "digit_char d = ''0123456789'' ! d"

text \<open>\<open>str_nat n\<close> is \<open>str(n)\<close> for a non-negative \<open>int\<close>.\<close>

function str_nat :: "nat \<Rightarrow> string" where
  "str_nat n = (if n < 10 then [digit_char n] else str_nat (n div 10) @ [digit_char (n mod 10)])"
  by pat_completeness auto
termination
  by (relation "measure (\<lambda>n. n)") auto

definition hex_char :: "nat \<Rightarrow> char" where
  "hex_char d = ''0123456789abcdef'' ! d"

text \<open>
  \<open>py_repr s\<close> is \<open>repr(s)\<close>: the quote is \<open>"\<close> when the text has a \<open>'\<close> and no \<open>"\<close>,
  and \<open>'\<close> otherwise; the quote, the backslash and the control characters are escaped.
\<close>

definition repr_char :: "char \<Rightarrow> char \<Rightarrow> string" where
  "repr_char q c =
     (if c = q \<or> c = CHR 0x5C then [CHR 0x5C, c]
      else if c = CHR 0x09 then [CHR 0x5C, CHR ''t'']
      else if c = CHR 0x0A then [CHR 0x5C, CHR ''n'']
      else if c = CHR 0x0D then [CHR 0x5C, CHR ''r'']
      else if (of_char c :: nat) < 32 \<or> (of_char c :: nat) = 127
        then [CHR 0x5C, CHR ''x'', hex_char ((of_char c :: nat) div 16),
              hex_char ((of_char c :: nat) mod 16)]
      else [c])"

definition py_repr :: "string \<Rightarrow> string" where
  "py_repr s =
     (let q = (if CHR 0x27 \<in> set s \<and> CHR 0x22 \<notin> set s then CHR 0x22 else CHR 0x27)
      in [q] @ concat (map (repr_char q) s) @ [q])"

text \<open>\<open>os.path.basename\<close>: what follows the last \<open>/\<close>.\<close>

definition basename :: "string \<Rightarrow> string" where
  "basename p = rev (takeWhile (\<lambda>c. c \<noteq> CHR ''/'') (rev p))"

text \<open>\<open>os.path.join\<close> of two components.\<close>

definition path_join :: "string \<Rightarrow> string \<Rightarrow> string" where
  "path_join a b =
     (if startswith b ''/'' then b
      else if a = [] \<or> last a = CHR ''/'' then a @ b
      else a @ ''/'' @ b)"

section \<open>Exceptions\<close>

text \<open>
  An exception value carries what the program reads of it: whether it is an instance of
  \<open>HttpError\<close> or of \<open>OSError\<close> (the classes of the \<open>except\<close> clause of
  \<open>next_chunk_with_retry\<close>; a subclass such as \<open>ConnectionResetError\<close> counts as
  \<open>OSError\<close>) or of neither, \<open>type(e).__name__\<close>, and \<open>str(e)\<close>. Only instances of
  \<open>Exception\<close> are modelled, so \<open>except Exception\<close> catches every value of this type.
\<close>

datatype exc_class = HttpError | OSError | OtherError

record exn =
  exn_class :: exc_class
  type_name :: string
  exn_text :: string

definition key_error :: "string \<Rightarrow> exn" where
  "key_error k = \<lparr>exn_class = OtherError, type_name = ''KeyError'', exn_text = py_repr k\<rparr>"

section \<open>Transient-error classifier\<close>

definition transient_signatures :: "string list" where
  "transient_signatures =
     [''eof occurred'', ''connection reset'', ''broken pipe'',
      ''timed out'', ''timeout'', ''ssl'', ''tls'',
      ''reset by peer'', ''transport closed'',
      ''503'', ''500'', ''429'']"

definition is_transient :: "exn \<Rightarrow> bool" where
  "is_transient err =
     (let s = lower (exn_text err)
      in list_ex (\<lambda>sig. contains sig s) transient_signatures)"

section \<open>Observable events\<close>

text \<open>
  What \<open>request.next_chunk()\<close> gives back: \<open>(status, done)\<close>, where \<open>status\<close> is \<open>None\<close> or
  a progress object whose \<open>progress()\<close> is a fraction, and \<open>done\<close> is read for its truth
  value only. Floats are idealised as reals.
\<close>

type_synonym chunk = "real option \<times> bool"

text \<open>
  The effects of a run, in the order they happen: each call of \<open>request.next_chunk()\<close>
  with what it returned or raised, \<open>time.sleep\<close>, \<open>print\<close>, the two callbacks,
  \<open>os.remove\<close>, and for the intake \<open>f.save\<close> and the start of the worker thread.
\<close>

datatype event =
    NextChunk "exn + chunk"
  | Sleep real
  | Print string
  | Status string
  | Progress int
  | Remove string
  | Save string
  | StartThread string "string list"

fun outcomes :: "event list \<Rightarrow> (exn + chunk) list" where
  "outcomes [] = []"
| "outcomes (NextChunk r # evs) = r # outcomes evs"
| "outcomes (ev # evs) = outcomes evs"

fun sleeps :: "event list \<Rightarrow> real list" where
  "sleeps [] = []"
| "sleeps (Sleep d # evs) = d # sleeps evs"
| "sleeps (ev # evs) = sleeps evs"

fun statuses :: "event list \<Rightarrow> string list" where
  "statuses [] = []"
| "statuses (Status s # evs) = s # statuses evs"
| "statuses (ev # evs) = statuses evs"

fun progress_values :: "event list \<Rightarrow> int list" where
  "progress_values [] = []"
| "progress_values (Progress p # evs) = p # progress_values evs"
| "progress_values (ev # evs) = progress_values evs"

fun removes :: "event list \<Rightarrow> string list" where
  "removes [] = []"
| "removes (Remove p # evs) = p # removes evs"
| "removes (ev # evs) = removes evs"

text \<open>The fractions of the status objects the remote session returned, in order.\<close>

fun fractions :: "(exn + chunk) list \<Rightarrow> real list" where
  "fractions [] = []"
| "fractions (Inr (Some f, d) # rs) = f # fractions rs"
| "fractions (r # rs) = fractions rs"

section \<open>The collaborators\<close>

text \<open>
  The Drive client, the credential store and the file system are outside the program.
  They are operations on a world \<open>'w\<close> that may fail: \<open>authorize\<close> is what
  \<open>get_service\<close> does with the token file once the account is known, \<open>create_request\<close>
  is \<open>MediaFileUpload(ruta, chunksize, resumable=True)\<close> followed by
  \<open>service.files().create(...)\<close>, \<open>next_chunk\<close> is \<open>request.next_chunk()\<close>, and
  \<open>os_remove\<close> is \<open>os.remove\<close>.
\<close>

record metadata =
  name :: string
  parents :: "string list"

record ('w, 's, 'r) env =
  authorize :: "string \<Rightarrow> 'w \<Rightarrow> (exn + 's) \<times> 'w"
  create_request :: "'s \<Rightarrow> metadata \<Rightarrow> string \<Rightarrow> nat \<Rightarrow> 'w \<Rightarrow> (exn + 'r) \<times> 'w"
  next_chunk :: "'r \<Rightarrow> 'w \<Rightarrow> (exn + chunk) \<times> 'w"
  os_remove :: "string \<Rightarrow> 'w \<Rightarrow> exn option \<times> 'w"

text \<open>\<open>CUENTAS\<close>: the accounts of \<open>config.json\<close>, each a dictionary of its own.\<close>

type_synonym cuentas = "string \<rightharpoonup> (string \<rightharpoonup> string)"

definition CHUNK_SIZE :: nat where
  "CHUNK_SIZE = 256 * 1024"

section \<open>Retrying one chunk\<close>

definition caught :: "exn \<Rightarrow> bool" where
  "caught e = (exn_class e = HttpError \<or> exn_class e = OSError)"

definition sleep_s :: "real \<Rightarrow> nat \<Rightarrow> real" where
  "sleep_s base_delay intento =
     base_delay * (2 ^ intento) * (1 + 0.12 * real (intento mod 3))"

definition retry_msg :: "nat \<Rightarrow> exn \<Rightarrow> string" where
  "retry_msg intento e =
     ''[upload] Retry '' @ str_nat (intento + 1) @ '' tras error transitorio: '' @ exn_text e"

text \<open>\<open>time.sleep\<close> refuses a negative duration with this \<open>ValueError\<close>.\<close>

definition sleep_value_error :: exn where
  "sleep_value_error =
     \<lparr>exn_class = OtherError, type_name = ''ValueError'',
      exn_text = ''sleep length must be non-negative''\<rparr>"

text \<open>
  The loop of \<open>next_chunk_with_retry\<close>, entered with the counter at \<open>intento\<close>. An
  exception that the \<open>except\<close> clause does not match leaves at once; a matched one is
  retried while \<open>intento < max_retries and is_transient(e)\<close>, and raised again otherwise.
  Before a retry the delay is computed, the message is printed and the delay is slept; the
  \<open>ValueError\<close> of \<open>time.sleep\<close> is raised inside the handler and leaves the loop.
\<close>

function next_chunk_with_retry_from ::
  "('w, 's, 'r) env \<Rightarrow> 'r \<Rightarrow> int \<Rightarrow> real \<Rightarrow> nat \<Rightarrow> 'w \<Rightarrow> (exn + chunk) \<times> 'w \<times> event list"
where
  "next_chunk_with_retry_from env request max_retries base_delay intento w =
     (case next_chunk env request w of
        (Inr res, w') \<Rightarrow> (Inr res, w', [NextChunk (Inr res)])
      | (Inl e, w') \<Rightarrow>
          if caught e then
            if int intento < max_retries \<and> is_transient e then
              if sleep_s base_delay intento < 0 then
                (Inl sleep_value_error, w',
                 [NextChunk (Inl e), Print (retry_msg intento e)])
              else
                (case next_chunk_with_retry_from env request max_retries base_delay
                        (intento + 1) w' of
                   (r, w'', evs) \<Rightarrow>
                     (r, w'',
                      [NextChunk (Inl e), Print (retry_msg intento e),
                       Sleep (sleep_s base_delay intento)] @ evs))
            else (Inl e, w', [NextChunk (Inl e)])
          else (Inl e, w', [NextChunk (Inl e)]))"
  by pat_completeness auto
termination
  by (relation "measure (\<lambda>(env, request, max_retries, base_delay, intento, w).
        nat (max_retries - int intento))") auto

declare next_chunk_with_retry_from.simps [simp del]

definition next_chunk_with_retry ::
  "('w, 's, 'r) env \<Rightarrow> 'r \<Rightarrow> int \<Rightarrow> real \<Rightarrow> 'w \<Rightarrow> (exn + chunk) \<times> 'w \<times> event list"
where
  "next_chunk_with_retry env request max_retries base_delay w =
     next_chunk_with_retry_from env request max_retries base_delay 0 w"

definition default_max_retries :: int where
  "default_max_retries = 7"

definition default_base_delay :: real where
  "default_base_delay = 1.2"

section \<open>One file's transfer session\<close>

text \<open>\<open>int(x)\<close> of a float: the fraction is cut off towards zero.\<close>

definition py_int :: "real \<Rightarrow> int" where
  "py_int x = (if 0 \<le> x then \<lfloor>x\<rfloor> else \<lceil>x\<rceil>)"

definition percent :: "real \<Rightarrow> int" where
  "percent f = py_int (f * 100)"

text \<open>The callback of \<open>if status: progress_cb(int(status.progress() * 100))\<close>.\<close>

definition status_events :: "real option \<Rightarrow> event list" where
  "status_events status = (case status of None \<Rightarrow> [] | Some f \<Rightarrow> [Progress (percent f)])"

text \<open>
  The \<open>while True\<close> loop of \<open>upload_files\<close> over one request. It ends when a chunk
  call reports \<open>done\<close> or raises; a remote that does neither keeps it running, which is
  the value \<open>None\<close>.
\<close>

partial_function (option) transfer_loop ::
  "('w, 's, 'r) env \<Rightarrow> 'r \<Rightarrow> 'w \<Rightarrow> ((exn + unit) \<times> 'w \<times> event list) option"
where
  "transfer_loop env request w =
     (case next_chunk_with_retry env request default_max_retries default_base_delay w of
        (Inl e, w', evs) \<Rightarrow> Some (Inl e, w', evs)
      | (Inr (status, done), w', evs) \<Rightarrow>
          if done then Some (Inr (), w', evs @ status_events status)
          else Option.bind (transfer_loop env request w')
                 (\<lambda>(r, w'', evs'). Some (r, w'', evs @ status_events status @ evs')))"

declare transfer_loop.simps [code]

definition subiendo_msg :: "nat \<Rightarrow> nat \<Rightarrow> string \<Rightarrow> string" where
  "subiendo_msg i ntotal nombre =
     ''Subiendo ('' @ str_nat i @ ''/'' @ str_nat ntotal @ ''): '' @ nombre"

text \<open>The body of the \<open>for\<close> loop: the \<open>i\<close>-th file of \<open>ntotal\<close>.\<close>

definition upload_one ::
  "('w, 's, 'r) env \<Rightarrow> 's \<Rightarrow> string \<Rightarrow> nat \<Rightarrow> nat \<Rightarrow> string \<Rightarrow> 'w
     \<Rightarrow> ((exn + unit) \<times> 'w \<times> event list) option"
where
  "upload_one env service carpeta_id ntotal i ruta w =
     (let nombre = basename ruta;
          started = [Status (subiendo_msg i ntotal nombre), Progress 0];
          metadata = \<lparr>name = nombre, parents = [carpeta_id]\<rparr>
      in case create_request env service metadata ruta CHUNK_SIZE w of
           (Inl e, w1) \<Rightarrow> Some (Inl e, w1, started)
         | (Inr request, w1) \<Rightarrow>
             Option.bind (transfer_loop env request w1)
               (\<lambda>(r, w2, evs). Some (r, w2, started @ evs)))"

section \<open>The batch\<close>

text \<open>\<open>for i, ruta in enumerate(rutas, start=1)\<close>, from index \<open>i\<close> on.\<close>

fun upload_each ::
  "('w, 's, 'r) env \<Rightarrow> 's \<Rightarrow> string \<Rightarrow> nat \<Rightarrow> nat \<Rightarrow> string list \<Rightarrow> 'w
     \<Rightarrow> ((exn + unit) \<times> 'w \<times> event list) option"
where
  "upload_each env service carpeta_id ntotal i [] w = Some (Inr (), w, [])"
| "upload_each env service carpeta_id ntotal i (ruta # rest) w =
     (case upload_one env service carpeta_id ntotal i ruta w of
        None \<Rightarrow> None
      | Some (Inl e, w1, evs) \<Rightarrow> Some (Inl e, w1, evs)
      | Some (Inr u, w1, evs) \<Rightarrow>
          Option.bind (upload_each env service carpeta_id ntotal (i + 1) rest w1)
            (\<lambda>(r, w2, evs'). Some (r, w2, evs @ evs')))"

definition get_service ::
  "cuentas \<Rightarrow> ('w, 's, 'r) env \<Rightarrow> string \<Rightarrow> 'w \<Rightarrow> (exn + 's) \<times> 'w"
where
  "get_service CUENTAS env cuenta w =
     (case CUENTAS cuenta of
        None \<Rightarrow> (Inl (key_error (''Cuenta desconocida: '' @ cuenta)), w)
      | Some cfg \<Rightarrow>
          (case cfg ''credenciales'' of
             None \<Rightarrow> (Inl (key_error ''credenciales''), w)
           | Some token_file \<Rightarrow> authorize env token_file w))"

text \<open>\<open>CUENTAS[cuenta]["carpeta"]\<close>.\<close>

definition carpeta_of :: "cuentas \<Rightarrow> string \<Rightarrow> exn + string" where
  "carpeta_of CUENTAS cuenta =
     (case CUENTAS cuenta of
        None \<Rightarrow> Inl (key_error cuenta)
      | Some cfg \<Rightarrow>
          (case cfg ''carpeta'' of
             None \<Rightarrow> Inl (key_error ''carpeta'')
           | Some carpeta_id \<Rightarrow> Inr carpeta_id))"

definition completada_msg :: string where
  "completada_msg = [CHR 0xE2, CHR 0x9C, CHR 0x85] @ '' Subida completada''"

definition error_msg :: "exn \<Rightarrow> string" where
  "error_msg e =
     [CHR 0xE2, CHR 0x9D, CHR 0x8C] @ '' Error: '' @ type_name e @ '': '' @ exn_text e"

text \<open>The \<open>try\<close> block of \<open>upload_files\<close>: the exception that leaves it, or none.\<close>

definition try_block ::
  "cuentas \<Rightarrow> ('w, 's, 'r) env \<Rightarrow> string \<Rightarrow> string list \<Rightarrow> 'w
     \<Rightarrow> ((exn + unit) \<times> 'w \<times> event list) option"
where
  "try_block CUENTAS env cuenta rutas w =
     (case get_service CUENTAS env cuenta w of
        (Inl e, w1) \<Rightarrow> Some (Inl e, w1, [])
      | (Inr service, w1) \<Rightarrow>
          (case carpeta_of CUENTAS cuenta of
             Inl e \<Rightarrow> Some (Inl e, w1, [])
           | Inr carpeta_id \<Rightarrow>
               (case upload_each env service carpeta_id (length rutas) 1 rutas w1 of
                  None \<Rightarrow> None
                | Some (Inl e, w2, evs) \<Rightarrow> Some (Inl e, w2, evs)
                | Some (Inr u, w2, evs) \<Rightarrow>
                    Some (Inr (), w2, evs @ [Progress 100, Status completada_msg]))))"

text \<open>The \<open>finally\<close> block: every path is tried, and what \<open>os.remove\<close> raises is dropped.\<close>

fun cleanup :: "('w, 's, 'r) env \<Rightarrow> string list \<Rightarrow> 'w \<Rightarrow> 'w \<times> event list" where
  "cleanup env [] w = (w, [])"
| "cleanup env (ruta # rest) w =
     (case os_remove env ruta w of
        (None, w1) \<Rightarrow> (case cleanup env rest w1 of (w2, evs) \<Rightarrow> (w2, Remove ruta # evs))
      | (Some e, w1) \<Rightarrow> (case cleanup env rest w1 of (w2, evs) \<Rightarrow> (w2, Remove ruta # evs)))"

text \<open>
  \<open>upload_files\<close>: the \<open>try\<close> block, the \<open>except Exception\<close> handler and the
  \<open>finally\<close> block. Nothing is raised to the caller; the result is the world and the
  events, or \<open>None\<close> when a transfer never ends.
\<close>

definition upload_files ::
  "cuentas \<Rightarrow> ('w, 's, 'r) env \<Rightarrow> string \<Rightarrow> string list \<Rightarrow> 'w \<Rightarrow> ('w \<times> event list) option"
where
  "upload_files CUENTAS env cuenta rutas w =
     (case try_block CUENTAS env cuenta rutas w of
        None \<Rightarrow> None
      | Some (r, w1, evs) \<Rightarrow>
          (let handled = (case r of Inl e \<Rightarrow> [Status (error_msg e)] | Inr u \<Rightarrow> [])
           in case cleanup env rutas w1 of
                (w2, removed) \<Rightarrow> Some (w2, evs @ handled @ removed)))"

section \<open>The intake\<close>

text \<open>
  An uploaded file as \<open>upload\<close> reads it: \<open>f.filename\<close>, which may be \<open>None\<close>, and what
  \<open>f.save\<close> writes. \<open>secure_filename\<close> and \<open>f.save\<close> belong to the web framework and
  are parameters.
\<close>

record file_storage =
  filename :: "string option"
  payload :: string

datatype response = Response nat "(string \<times> string) list"

text \<open>The loop that stages the files under \<open>UPLOAD_DIR\<close> and collects \<open>rutas\<close>.\<close>

fun stage_files ::
  "(string \<Rightarrow> string) \<Rightarrow> (file_storage \<Rightarrow> string \<Rightarrow> 'w \<Rightarrow> exn option \<times> 'w) \<Rightarrow> string
     \<Rightarrow> file_storage list \<Rightarrow> 'w \<Rightarrow> (exn + string list) \<times> 'w \<times> event list"
where
  "stage_files secure_filename save UPLOAD_DIR [] w = (Inr [], w, [])"
| "stage_files secure_filename save UPLOAD_DIR (f # fs) w =
     (let given = (case filename f of None \<Rightarrow> ''archivo''
                   | Some n \<Rightarrow> if n = [] then ''archivo'' else n);
          fname = secure_filename given
      in if fname = [] then stage_files secure_filename save UPLOAD_DIR fs w
         else
           (let ruta = path_join UPLOAD_DIR fname
            in case save f ruta w of
                 (Some e, w1) \<Rightarrow> (Inl e, w1, [Save ruta])
               | (None, w1) \<Rightarrow>
                   (case stage_files secure_filename save UPLOAD_DIR fs w1 of
                      (Inl e, w2, evs) \<Rightarrow> (Inl e, w2, Save ruta # evs)
                    | (Inr rutas, w2, evs) \<Rightarrow> (Inr (ruta # rutas), w2, Save ruta # evs))))"

definition faltan_msg :: string where
  "faltan_msg = ''Faltan par'' @ [CHR 0xC3, CHR 0xA1] @ ''metros: cuenta y archivos''"

definition no_validos_msg :: string where
  "no_validos_msg = ''No se recibieron archivos v'' @ [CHR 0xC3, CHR 0xA1] @ ''lidos''"

text \<open>
  \<open>upload\<close>, the handler of \<open>POST /upload\<close>: \<open>cuenta\<close> is \<open>request.form.get("cuenta")\<close>
  and \<open>files\<close> is \<open>request.files.getlist("archivos")\<close>. The result is the response, or
  the exception \<open>f.save\<close> raised.
\<close>

definition upload ::
  "cuentas \<Rightarrow> (string \<Rightarrow> string) \<Rightarrow> (file_storage \<Rightarrow> string \<Rightarrow> 'w \<Rightarrow> exn option \<times> 'w) \<Rightarrow> string
     \<Rightarrow> string option \<Rightarrow> file_storage list \<Rightarrow> 'w \<Rightarrow> (exn + response) \<times> 'w \<times> event list"
where
  "upload CUENTAS secure_filename save UPLOAD_DIR cuenta files w =
     (case cuenta of
        None \<Rightarrow> (Inr (Response 400 [(''error'', faltan_msg)]), w, [])
      | Some c \<Rightarrow>
          if c = [] \<or> files = [] then (Inr (Response 400 [(''error'', faltan_msg)]), w, [])
          else if CUENTAS c = None
            then (Inr (Response 400 [(''error'', ''Cuenta desconocida: '' @ c)]), w, [])
          else
            (case stage_files secure_filename save UPLOAD_DIR files w of
               (Inl e, w1, evs) \<Rightarrow> (Inl e, w1, evs)
             | (Inr rutas, w1, evs) \<Rightarrow>
                 if rutas = [] then (Inr (Response 400 [(''error'', no_validos_msg)]), w1, evs)
                 else (Inr (Response 202 [(''status'', ''Subida iniciada'')]), w1,
                       evs @ [StartThread c rutas])))"

section \<open>Scripted collaborators\<close>

text \<open>
  Concrete collaborators for running the model: the remote answers from a script, one
  entry per call of \<open>next_chunk\<close>, and reports the upload done once the script has run
  out; \<open>os.remove\<close> fails on the paths of \<open>locked\<close>; nothing else fails.
\<close>

definition scripted :: "string set \<Rightarrow> ((exn + chunk) list, unit, unit) env" where
  "scripted locked =
     \<lparr>authorize = (\<lambda>token_file w. (Inr (), w)),
      create_request = (\<lambda>service metadata ruta chunksize w. (Inr (), w)),
      next_chunk = (\<lambda>request w. case w of [] \<Rightarrow> (Inr (None, True), []) | x # rest \<Rightarrow> (x, rest)),
      os_remove = (\<lambda>ruta w.
        (if ruta \<in> locked
         then Some \<lparr>exn_class = OSError, type_name = ''PermissionError'',
                    exn_text = ''[Errno 13] Permission denied''\<rparr>
         else None, w))\<rparr>"

definition timeout_error :: exn where
  "timeout_error =
     \<lparr>exn_class = OSError, type_name = ''TimeoutError'',
      exn_text = ''The read operation timed out''\<rparr>"

definition grant_error :: exn where
  "grant_error =
     \<lparr>exn_class = HttpError, type_name = ''HttpError'', exn_text = ''invalid_grant''\<rparr>"

definition transport_error :: exn where
  "transport_error =
     \<lparr>exn_class = OtherError, type_name = ''TransportError'',
      exn_text = ''Connection reset by peer''\<rparr>"


text \<open>
  Collaborators with a file system: the world is the remote's script and the list of the
  files on disk. \<open>os.remove\<close> deletes a file that is there, and raises
  \<open>FileNotFoundError\<close> for one that is not and \<open>PermissionError\<close> for one of \<open>locked\<close>.
  \<open>save_on_disk\<close> is an \<open>f.save\<close> that writes the file, over an older one of the same
  path; \<open>plain_filename\<close> is a \<open>secure_filename\<close> on names that are safe already.
\<close>

definition permission_error :: exn where
  "permission_error =
     \<lparr>exn_class = OSError, type_name = ''PermissionError'',
      exn_text = ''[Errno 13] Permission denied''\<rparr>"

definition file_not_found_error :: exn where
  "file_not_found_error =
     \<lparr>exn_class = OSError, type_name = ''FileNotFoundError'',
      exn_text = ''[Errno 2] No such file or directory''\<rparr>"

definition disk :: "string set \<Rightarrow> ((exn + chunk) list \<times> string list, unit, unit) env" where
  "disk locked =
     \<lparr>authorize = (\<lambda>token_file w. (Inr (), w)),
      create_request = (\<lambda>service metadata ruta chunksize w. (Inr (), w)),
      next_chunk = (\<lambda>request w.
        case fst w of
          [] \<Rightarrow> (Inr (None, True), ([], snd w))
        | x # rest \<Rightarrow> (x, (rest, snd w))),
      os_remove = (\<lambda>ruta w.
        if ruta \<in> locked then (Some permission_error, w)
        else if ruta \<in> set (snd w) then (None, (fst w, removeAll ruta (snd w)))
        else (Some file_not_found_error, w))\<rparr>"

definition save_on_disk ::
  "file_storage \<Rightarrow> string \<Rightarrow> (exn + chunk) list \<times> string list
     \<Rightarrow> exn option \<times> (exn + chunk) list \<times> string list"
where
  "save_on_disk f ruta w =
     (None, (fst w, if ruta \<in> set (snd w) then snd w else snd w @ [ruta]))"

definition plain_filename :: "string \<Rightarrow> string" where
  "plain_filename n = n"

definition a_pdf :: file_storage where
  "a_pdf = \<lparr>filename = Some ''a.pdf'', payload = ''%PDF''\<rparr>"

definition one_account :: cuentas where
  "one_account =
     [''penal'' \<mapsto> [''credenciales'' \<mapsto> ''token.json'', ''carpeta'' \<mapsto> ''folder1'']]"

section \<open>Properties of the classifier\<close>

lemma startswith_iff: "startswith s sub \<longleftrightarrow> (\<exists>ss. s = sub @ ss)"
  by (induction s sub rule: startswith.induct) auto

lemma contains_iff: "contains sub s \<longleftrightarrow> (\<exists>ps ss. s = ps @ sub @ ss)"
proof (induction s)
  case Nil
  then show ?case by auto
next
  case (Cons x xs)
  show ?case
  proof
    assume "contains sub (x # xs)"
    then consider "startswith (x # xs) sub" | "contains sub xs" by auto
    then show "\<exists>ps ss. x # xs = ps @ sub @ ss"
    proof cases
      case 1
      then obtain ss where "x # xs = sub @ ss" by (auto simp: startswith_iff)
      then have "x # xs = [] @ sub @ ss" by simp
      then show ?thesis by blast
    next
      case 2
      then obtain ps ss where "xs = ps @ sub @ ss" using Cons.IH by auto
      then have "x # xs = (x # ps) @ sub @ ss" by simp
      then show ?thesis by blast
    qed
  next
    assume "\<exists>ps ss. x # xs = ps @ sub @ ss"
    then obtain ps ss where eq: "x # xs = ps @ sub @ ss" by auto
    show "contains sub (x # xs)"
    proof (cases ps)
      case Nil
      with eq have "startswith (x # xs) sub" by (auto simp: startswith_iff)
      then show ?thesis by simp
    next
      case (Cons p ps')
      with eq have "xs = ps' @ sub @ ss" by simp
      then have "contains sub xs" using Cons.IH by blast
      then show ?thesis by simp
    qed
  qed
qed

lemma is_transient_signatures:
  "is_transient err \<longleftrightarrow>
     (\<exists>sig ps ss. sig \<in> set transient_signatures \<and> lower (exn_text err) = ps @ sig @ ss)"
  unfolding is_transient_def Let_def list_ex_iff contains_iff by blast

lemma not_transient_texts:
  "\<not> list_ex (\<lambda>sig. contains sig (lower ''invalid_grant'')) transient_signatures"
  "\<not> list_ex (\<lambda>sig. contains sig (lower ''404'')) transient_signatures"
  by code_simp+

text \<open>
  C1 (amended). \<open>is_transient(err)\<close> is true exactly when the lower-cased text of
  \<open>err\<close> contains one of the twelve signatures of the source. An error whose text is
  "invalid_grant" or "404" is not transient.
\<close>

theorem is_transient_iff:
  "(is_transient err \<longleftrightarrow>
     (\<exists>sig ps ss.
        sig \<in> set [''eof occurred'', ''connection reset'', ''broken pipe'',
                   ''timed out'', ''timeout'', ''ssl'', ''tls'',
                   ''reset by peer'', ''transport closed'',
                   ''503'', ''500'', ''429''] \<and>
        lower (exn_text err) = ps @ sig @ ss)) \<and>
   \<not> is_transient (err\<lparr>exn_text := ''invalid_grant''\<rparr>) \<and>
   \<not> is_transient (err\<lparr>exn_text := ''404''\<rparr>)"
proof -
  have "is_transient err \<longleftrightarrow>
     (\<exists>sig ps ss.
        sig \<in> set [''eof occurred'', ''connection reset'', ''broken pipe'',
                   ''timed out'', ''timeout'', ''ssl'', ''tls'',
                   ''reset by peer'', ''transport closed'',
                   ''503'', ''500'', ''429''] \<and>
        lower (exn_text err) = ps @ sig @ ss)"
    using is_transient_signatures [of err] by (simp only: transient_signatures_def)
  moreover have "\<not> is_transient (err\<lparr>exn_text := ''invalid_grant''\<rparr>)"
    using not_transient_texts(1) by (simp add: is_transient_def)
  moreover have "\<not> is_transient (err\<lparr>exn_text := ''404''\<rparr>)"
    using not_transient_texts(2) by (simp add: is_transient_def)
  ultimately show ?thesis by blast
qed

text \<open>
  A text that contains "reset", but neither "connection reset" nor "reset by peer", is
  not transient.
\<close>

theorem is_transient_reset_counterexample:
  "contains ''reset'' ''Password reset required'' \<and>
   \<not> is_transient \<lparr>exn_class = HttpError, type_name = ''HttpError'',
                    exn_text = ''Password reset required''\<rparr>"
  by code_simp

lemma lower_append: "lower (xs @ ys) = lower xs @ lower ys"
  by (simp add: lower_def)

lemma signatures_lower: "\<forall>sig \<in> set transient_signatures. lower sig = sig"
  by code_simp

lemma is_transient_any_case:
  assumes "sig \<in> set transient_signatures" and "exn_text err = ps @ sig @ ss"
  shows "is_transient err"
proof -
  have "lower sig = sig" using assms(1) signatures_lower by blast
  then have "lower (exn_text err) = lower ps @ sig @ lower ss"
    using assms(2) by (simp add: lower_append)
  then show ?thesis using assms(1) is_transient_signatures by blast
qed

section \<open>Properties of the backoff delay\<close>

lemma jitter_bounds:
  "1 \<le> 1 + 0.12 * real (n mod 3)" "1 + 0.12 * real (n mod 3) \<le> 1.24"
proof -
  have "n mod 3 \<le> 2" by simp
  then have "real (n mod 3) \<le> 2" by (metis of_nat_le_iff of_nat_numeral)
  then show "1 + 0.12 * real (n mod 3) \<le> 1.24" by simp
  show "1 \<le> 1 + 0.12 * real (n mod 3)" by simp
qed

lemma sleep_s_step:
  assumes "0 < base_delay"
  shows "sleep_s base_delay n < sleep_s base_delay (Suc n)"
proof -
  have pos: "0 < base_delay * 2 ^ n" using assms by simp
  have "sleep_s base_delay n \<le> base_delay * 2 ^ n * 1.24"
    unfolding sleep_s_def using pos jitter_bounds(2) [of n]
    by (intro mult_left_mono) simp_all
  also have "\<dots> < base_delay * 2 ^ n * 2" using pos by simp
  also have "\<dots> = base_delay * 2 ^ Suc n * 1" by simp
  also have "\<dots> \<le> sleep_s base_delay (Suc n)"
    unfolding sleep_s_def using assms jitter_bounds(1) [of "Suc n"]
    by (intro mult_left_mono) simp_all
  finally show ?thesis .
qed

text \<open>
  C4. The delay of attempt 0 is the base delay. With the default base delay of 1.2
  seconds, which is what the transfer loop passes, the delay is strictly increasing in the
  attempt index; so it is for every positive base delay.
\<close>

theorem sleep_s_strictly_increasing:
  "sleep_s base_delay 0 = base_delay \<and>
   (\<forall>m n. m < n \<longrightarrow> sleep_s default_base_delay m < sleep_s default_base_delay n) \<and>
   (0 < base_delay \<longrightarrow> (\<forall>m n. m < n \<longrightarrow> sleep_s base_delay m < sleep_s base_delay n))"
proof -
  have mono: "sleep_s b m < sleep_s b n" if "0 < b" and "m < n" for b and m n :: nat
    using lift_Suc_mono_less [of "sleep_s b" m n] sleep_s_step [OF that(1)] that(2) by blast
  have "sleep_s base_delay 0 = base_delay" by (simp add: sleep_s_def)
  moreover have "0 < default_base_delay" by (simp add: default_base_delay_def)
  ultimately show ?thesis using mono by blast
qed

theorem sleep_s_strictly_increasing_witness:
  "sleep_s default_base_delay 0 = 1.2 \<and> (0::real) < default_base_delay \<and> (2::nat) < 3 \<and>
   sleep_s default_base_delay 2 < sleep_s default_base_delay 3 \<and>
   sleep_s default_base_delay 2 = 5.952 \<and> sleep_s default_base_delay 3 = 9.6"
proof -
  have "sleep_s default_base_delay 2 < sleep_s default_base_delay 3"
    using sleep_s_strictly_increasing [of default_base_delay] by simp
  then show ?thesis by (simp add: default_base_delay_def sleep_s_def)
qed

section \<open>Properties of the retry loop\<close>

text \<open>The three ways one round of the loop goes, as an induction rule over a run.\<close>

lemma next_chunk_with_retry_from_induct
  [consumes 1, case_names returned raised refused retried]:
  assumes run: "next_chunk_with_retry_from env request max_retries base_delay intento w = (r, w', evs)"
    and returned: "\<And>intento w res w'.
        next_chunk env request w = (Inr res, w') \<Longrightarrow>
        P intento w (Inr res) w' [NextChunk (Inr res)]"
    and raised: "\<And>intento w e w'.
        next_chunk env request w = (Inl e, w') \<Longrightarrow>
        \<not> (caught e \<and> int intento < max_retries \<and> is_transient e) \<Longrightarrow>
        P intento w (Inl e) w' [NextChunk (Inl e)]"
    and refused: "\<And>intento w e w'.
        next_chunk env request w = (Inl e, w') \<Longrightarrow>
        caught e \<Longrightarrow> int intento < max_retries \<Longrightarrow> is_transient e \<Longrightarrow>
        sleep_s base_delay intento < 0 \<Longrightarrow>
        P intento w (Inl sleep_value_error) w'
          [NextChunk (Inl e), Print (retry_msg intento e)]"
    and retried: "\<And>intento w e w1 r w' evs.
        next_chunk env request w = (Inl e, w1) \<Longrightarrow>
        caught e \<Longrightarrow> int intento < max_retries \<Longrightarrow> is_transient e \<Longrightarrow>
        0 \<le> sleep_s base_delay intento \<Longrightarrow>
        next_chunk_with_retry_from env request max_retries base_delay (intento + 1) w1
          = (r, w', evs) \<Longrightarrow>
        P (intento + 1) w1 r w' evs \<Longrightarrow>
        P intento w r w'
          ([NextChunk (Inl e), Print (retry_msg intento e),
            Sleep (sleep_s base_delay intento)] @ evs)"
  shows "P intento w r w' evs"
  using run
proof (induction "nat (max_retries - int intento)" arbitrary: intento w r w' evs
        rule: less_induct)
  case less
  obtain x w1 where nc: "next_chunk env request w = (x, w1)" by (cases "next_chunk env request w")
  show ?case
  proof (cases x)
    case (Inr res)
    with nc less.prems have "r = Inr res" "w' = w1" "evs = [NextChunk (Inr res)]"
      by (auto simp: next_chunk_with_retry_from.simps)
    with returned [of w res w1 intento] nc Inr show ?thesis by simp
  next
    case (Inl e)
    show ?thesis
    proof (cases "caught e \<and> int intento < max_retries \<and> is_transient e")
      case False
      with nc Inl less.prems have "r = Inl e" "w' = w1" "evs = [NextChunk (Inl e)]"
        by (auto simp: next_chunk_with_retry_from.simps split: if_splits)
      with raised [of w e w1 intento] nc Inl False show ?thesis by simp
    next
      case True
      show ?thesis
      proof (cases "sleep_s base_delay intento < 0")
        case negative: True
        with nc Inl True less.prems
        have "r = Inl sleep_value_error" "w' = w1"
          "evs = [NextChunk (Inl e), Print (retry_msg intento e)]"
          by (auto simp: next_chunk_with_retry_from.simps)
        with refused [of w e w1 intento] nc Inl True negative show ?thesis by simp
      next
        case False
        obtain r2 w2 evs2 where rec:
          "next_chunk_with_retry_from env request max_retries base_delay (intento + 1) w1
             = (r2, w2, evs2)"
          by (cases "next_chunk_with_retry_from env request max_retries base_delay
                       (intento + 1) w1")
        with nc Inl True False less.prems
        have eqs: "r = r2" "w' = w2"
          "evs = [NextChunk (Inl e), Print (retry_msg intento e),
                  Sleep (sleep_s base_delay intento)] @ evs2"
          by (auto simp: next_chunk_with_retry_from.simps)
        have "nat (max_retries - int (intento + 1)) < nat (max_retries - int intento)"
          using True by simp
        then have "P (intento + 1) w1 r2 w2 evs2"
          using less.hyps rec by blast
        with retried [of w e w1 intento r2 w2 evs2] nc Inl True False rec eqs
        show ?thesis by simp
      qed
    qed
  qed
qed

lemma outcomes_append [simp]: "outcomes (xs @ ys) = outcomes xs @ outcomes ys"
  by (induction xs rule: outcomes.induct) auto

lemma sleeps_append [simp]: "sleeps (xs @ ys) = sleeps xs @ sleeps ys"
  by (induction xs rule: sleeps.induct) auto

lemma statuses_append [simp]: "statuses (xs @ ys) = statuses xs @ statuses ys"
  by (induction xs rule: statuses.induct) auto

lemma progress_values_append [simp]:
  "progress_values (xs @ ys) = progress_values xs @ progress_values ys"
  by (induction xs rule: progress_values.induct) auto

lemma removes_append [simp]: "removes (xs @ ys) = removes xs @ removes ys"
  by (induction xs rule: removes.induct) auto

lemma sleep_s_nonneg: "0 \<le> base_delay \<Longrightarrow> 0 \<le> sleep_s base_delay n"
  by (simp add: sleep_s_def)

lemma sleep_value_error_uncaught [simp]: "\<not> caught sleep_value_error"
  by (simp add: caught_def sleep_value_error_def)

lemma retry_outcomes_nonempty:
  assumes "next_chunk_with_retry_from env request max_retries base_delay intento w = (r, w', evs)"
  shows "outcomes evs \<noteq> []"
  using assms by (induction rule: next_chunk_with_retry_from_induct) auto

lemma retry_outcomes_last:
  assumes "next_chunk_with_retry_from env request max_retries base_delay intento w = (r, w', evs)"
    and "0 \<le> base_delay"
  shows "r = last (outcomes evs)"
  using assms
proof (induction rule: next_chunk_with_retry_from_induct)
  case (refused intento w e w')
  then show ?case using sleep_s_nonneg [of base_delay intento] by simp
next
  case (retried intento w e w1 r w' evs)
  then show ?case using retry_outcomes_nonempty [OF retried(6)] by simp
qed auto

lemma retry_calls_sleeps:
  assumes "next_chunk_with_retry_from env request max_retries base_delay intento w = (r, w', evs)"
  shows "length (outcomes evs) = length (sleeps evs) + 1"
  using assms by (induction rule: next_chunk_with_retry_from_induct) auto

lemma retry_sleeps_bound:
  assumes "next_chunk_with_retry_from env request max_retries base_delay intento w = (r, w', evs)"
  shows "int intento + int (length (sleeps evs)) \<le> max (int intento) max_retries"
  using assms by (induction rule: next_chunk_with_retry_from_induct) auto

lemma retry_only_transient:
  assumes "next_chunk_with_retry_from env request max_retries base_delay intento w = (r, w', evs)"
  shows "\<forall>x \<in> set (butlast (outcomes evs)). \<exists>e. x = Inl e \<and> caught e \<and> is_transient e"
  using assms
proof (induction rule: next_chunk_with_retry_from_induct)
  case (retried intento w e w1 r w' evs)
  have "outcomes evs \<noteq> []"
    by (rule retry_outcomes_nonempty [OF retried(6)])
  then show ?case using retried by (simp add: butlast_append)
qed auto

lemma retry_exhausted:
  assumes "next_chunk_with_retry_from env request max_retries base_delay intento w = (r, w', evs)"
    and "r = Inl e" and "caught e" and "is_transient e"
  shows "max_retries \<le> int intento + int (length (sleeps evs))"
  using assms by (induction rule: next_chunk_with_retry_from_induct) auto

lemma retry_sleeps_formula:
  assumes "next_chunk_with_retry_from env request max_retries base_delay intento w = (r, w', evs)"
  shows "sleeps evs = map (sleep_s base_delay) [intento..<intento + length (sleeps evs)]"
  using assms
proof (induction rule: next_chunk_with_retry_from_induct)
  case (retried intento w e w1 r w' evs)
  have "[intento..<intento + Suc (length (sleeps evs))]
          = intento # [intento + 1..<intento + 1 + length (sleeps evs)]"
    by (subst upt_rec) simp
  then show ?case using retried(7) by simp
qed auto

lemma retry_no_callbacks:
  assumes "next_chunk_with_retry_from env request max_retries base_delay intento w = (r, w', evs)"
  shows "statuses evs = [] \<and> progress_values evs = [] \<and> removes evs = []"
  using assms by (induction rule: next_chunk_with_retry_from_induct) auto

text \<open>
  C2. With \<open>max_retries\<close> retries allowed (7 by default), one call of
  \<open>next_chunk_with_retry\<close> sleeps and retries at most \<open>max_retries\<close> times and so calls
  \<open>next_chunk\<close> at most \<open>max_retries + 1\<close> times. With a base delay that is not negative,
  what it returns or raises is what the last call gave; every call before the last raised
  a caught transient error; and a caught transient error is raised to the caller only once
  \<open>max_retries\<close> retries are used up, so after \<open>max_retries\<close> transient failures one more
  ends the call with that error.
\<close>

theorem next_chunk_with_retry_bounded:
  assumes "next_chunk_with_retry env request max_retries base_delay w = (r, w', evs)"
  shows "length (sleeps evs) \<le> nat max_retries \<and>
         length (outcomes evs) = length (sleeps evs) + 1 \<and>
         length (outcomes evs) \<le> nat max_retries + 1 \<and>
         (0 \<le> base_delay \<longrightarrow> r = last (outcomes evs)) \<and>
         (\<forall>x \<in> set (butlast (outcomes evs)). \<exists>e. x = Inl e \<and> caught e \<and> is_transient e) \<and>
         (\<forall>e. r = Inl e \<and> caught e \<and> is_transient e \<longrightarrow>
              max_retries \<le> int (length (sleeps evs)))"
proof -
  have run: "next_chunk_with_retry_from env request max_retries base_delay 0 w = (r, w', evs)"
    using assms by (simp add: next_chunk_with_retry_def)
  have a: "length (sleeps evs) \<le> nat max_retries"
    using retry_sleeps_bound [OF run] by simp
  have b: "length (outcomes evs) = length (sleeps evs) + 1"
    by (rule retry_calls_sleeps [OF run])
  have c: "0 \<le> base_delay \<longrightarrow> r = last (outcomes evs)"
    using retry_outcomes_last [OF run] by simp
  have d: "\<forall>x \<in> set (butlast (outcomes evs)). \<exists>e. x = Inl e \<and> caught e \<and> is_transient e"
    by (rule retry_only_transient [OF run])
  have e: "\<forall>e. r = Inl e \<and> caught e \<and> is_transient e \<longrightarrow>
              max_retries \<le> int (length (sleeps evs))"
    using retry_exhausted [OF run] by auto
  from a b c d e show ?thesis by simp
qed

text \<open>
  C3. The delays slept in one call of \<open>next_chunk_with_retry\<close> are, in order,
  \<open>base_delay * 2^n * (1 + 0.12 * (n mod 3))\<close> for \<open>n = 0, 1, 2, ...\<close>: the delay before
  the \<open>(n+1)\<close>-th retry is the one of attempt index \<open>n\<close>, counted from 0. The base delay
  of the transfer loop is the default, 1.2 seconds.
\<close>

theorem backoff_delay_formula:
  assumes "next_chunk_with_retry env request max_retries base_delay w = (r, w', evs)"
  shows "sleeps evs =
           map (\<lambda>n. base_delay * 2 ^ n * (1 + 0.12 * real (n mod 3)))
             [0..<length (sleeps evs)] \<and>
         default_base_delay = 1.2"
proof -
  have run: "next_chunk_with_retry_from env request max_retries base_delay 0 w = (r, w', evs)"
    using assms by (simp add: next_chunk_with_retry_def)
  have "sleep_s base_delay = (\<lambda>n. base_delay * 2 ^ n * (1 + 0.12 * real (n mod 3)))"
    by (rule ext) (simp add: sleep_s_def)
  moreover have "sleeps evs = map (sleep_s base_delay) [0..<length (sleeps evs)]"
    using retry_sleeps_formula [OF run] by simp
  ultimately have "sleeps evs =
      map (\<lambda>n. base_delay * 2 ^ n * (1 + 0.12 * real (n mod 3))) [0..<length (sleeps evs)]"
    by simp
  moreover have "default_base_delay = 1.2" by (simp add: default_base_delay_def)
  ultimately show ?thesis by blast
qed

text \<open>
  C10. An exception of \<open>next_chunk\<close> that is neither an \<open>HttpError\<close> nor an \<open>OSError\<close>
  leaves \<open>next_chunk_with_retry\<close> at once, whatever the attempt counter and whatever its
  text: the only event is the call itself, with no \<open>print\<close> and no \<open>sleep\<close>.
\<close>

theorem uncaught_exception_propagates:
  assumes "next_chunk env request w = (Inl e, w')" and "\<not> caught e"
  shows "next_chunk_with_retry_from env request max_retries base_delay intento w
           = (Inl e, w', [NextChunk (Inl e)]) \<and>
         next_chunk_with_retry env request max_retries base_delay w
           = (Inl e, w', [NextChunk (Inl e)])"
  using assms by (simp add: next_chunk_with_retry_def next_chunk_with_retry_from.simps)

theorem next_chunk_with_retry_bounded_witness:
  "fst (next_chunk_with_retry (scripted {}) () 7 1.2 (replicate 9 (Inl timeout_error)))
     = Inl timeout_error \<and>
   fst (snd (next_chunk_with_retry (scripted {}) () 7 1.2 (replicate 9 (Inl timeout_error))))
     = [Inl timeout_error] \<and>
   length (sleeps (snd (snd
     (next_chunk_with_retry (scripted {}) () 7 1.2 (replicate 9 (Inl timeout_error)))))) = 7 \<and>
   length (outcomes (snd (snd
     (next_chunk_with_retry (scripted {}) () 7 1.2 (replicate 9 (Inl timeout_error)))))) = 8"
proof -
  let ?R = "next_chunk_with_retry (scripted {}) () 7 1.2 (replicate 9 (Inl timeout_error))"
  have run: "?R = (fst ?R, fst (snd ?R), snd (snd ?R))" by simp
  have r: "fst ?R = Inl timeout_error" by code_simp
  have w: "fst (snd ?R) = [Inl timeout_error]" by code_simp
  have t: "caught timeout_error \<and> is_transient timeout_error" by code_simp
  from next_chunk_with_retry_bounded [OF run] r t
  have "length (sleeps (snd (snd ?R))) \<le> 7" "7 \<le> length (sleeps (snd (snd ?R)))"
    "length (outcomes (snd (snd ?R))) = length (sleeps (snd (snd ?R))) + 1"
    by auto
  with r w show ?thesis by simp
qed

theorem backoff_delay_formula_witness:
  "sleeps (snd (snd
     (next_chunk_with_retry (scripted {}) () 7 1.2 (replicate 9 (Inl timeout_error)))))
     = [1.2, 2.688, 5.952, 9.6, 21.504, 47.616, 76.8]"
proof -
  let ?R = "next_chunk_with_retry (scripted {}) () 7 1.2 (replicate 9 (Inl timeout_error))"
  have run: "?R = (fst ?R, fst (snd ?R), snd (snd ?R))" by simp
  have n: "length (sleeps (snd (snd ?R))) = 7" by code_simp
  have "[0..<7] = [0, 1, 2, 3, 4, 5, 6::nat]" by code_simp
  with backoff_delay_formula [OF run] n show ?thesis by simp
qed

theorem uncaught_exception_propagates_witness:
  "is_transient transport_error \<and> \<not> caught transport_error \<and>
   next_chunk_with_retry (scripted {}) () 7 1.2 [Inl transport_error, Inr (None, True)]
     = (Inl transport_error, [Inr (None, True)], [NextChunk (Inl transport_error)])"
proof -
  have t: "is_transient transport_error" by code_simp
  have c: "\<not> caught transport_error" by code_simp
  have nc: "next_chunk (scripted {}) () [Inl transport_error, Inr (None, True)]
              = (Inl transport_error, [Inr (None, True)])"
    by (simp add: scripted_def)
  from uncaught_exception_propagates [OF nc c] t c show ?thesis by simp
qed

section \<open>Properties of a transfer session\<close>

lemma transfer_loop_induct [consumes 1, case_names raised finished continued]:
  assumes run: "transfer_loop env request w = Some (r, w', evs)"
    and raised: "\<And>w e w' evs.
        next_chunk_with_retry env request default_max_retries default_base_delay w
          = (Inl e, w', evs) \<Longrightarrow>
        P w (Inl e) w' evs"
    and finished: "\<And>w status w' evs.
        next_chunk_with_retry env request default_max_retries default_base_delay w
          = (Inr (status, True), w', evs) \<Longrightarrow>
        P w (Inr ()) w' (evs @ status_events status)"
    and continued: "\<And>w status w1 evs r w' evs'.
        next_chunk_with_retry env request default_max_retries default_base_delay w
          = (Inr (status, False), w1, evs) \<Longrightarrow>
        P w1 r w' evs' \<Longrightarrow>
        P w r w' (evs @ status_events status @ evs')"
  shows "P w r w' evs"
proof -
  have "env = env \<and> request = request \<longrightarrow>
          P w (fst (r, w', evs)) (fst (snd (r, w', evs))) (snd (snd (r, w', evs)))"
  proof (rule transfer_loop.raw_induct
      [where P = "\<lambda>env' request' w y. env' = env \<and> request' = request \<longrightarrow>
                    P w (fst y) (fst (snd y)) (snd (snd y))", OF _ run])
    fix f :: "('a, 'b, 'c) env \<Rightarrow> 'c \<Rightarrow> 'a \<Rightarrow> ((exn + unit) \<times> 'a \<times> event list) option"
    fix env' request' w y
    assume IH: "\<And>request'' w'' b y. f request'' w'' b = Some y \<Longrightarrow>
                  request'' = env \<and> w'' = request \<longrightarrow> P b (fst y) (fst (snd y)) (snd (snd y))"
      and body: "(case next_chunk_with_retry env' request' default_max_retries
                        default_base_delay w of
                    (Inl e, w', evs) \<Rightarrow> Some (Inl e, w', evs)
                  | (Inr (status, done), w', evs) \<Rightarrow>
                      if done then Some (Inr (), w', evs @ status_events status)
                      else Option.bind (f env' request' w')
                             (\<lambda>(r, w'', evs'). Some (r, w'', evs @ status_events status @ evs')))
                 = Some y"
    show "env' = env \<and> request' = request \<longrightarrow> P w (fst y) (fst (snd y)) (snd (snd y))"
    proof
      assume eq: "env' = env \<and> request' = request"
      obtain x w1 evs1 where nc:
        "next_chunk_with_retry env request default_max_retries default_base_delay w
           = (x, w1, evs1)"
        by (cases "next_chunk_with_retry env request default_max_retries default_base_delay w")
      show "P w (fst y) (fst (snd y)) (snd (snd y))"
      proof (cases x)
        case (Inl e)
        with body eq nc have "y = (Inl e, w1, evs1)" by simp
        with raised [of w e w1 evs1] nc Inl show ?thesis by simp
      next
        case (Inr res)
        obtain status d where res: "res = (status, d)" by (cases res)
        show ?thesis
        proof (cases d)
          case True
          with body eq nc Inr res have "y = (Inr (), w1, evs1 @ status_events status)" by simp
          with finished [of w status w1 evs1] nc Inr res True show ?thesis by simp
        next
          case False
          with body eq nc Inr res
          obtain r2 w2 evs2 where rec: "f env request w1 = Some (r2, w2, evs2)"
            and y: "y = (r2, w2, evs1 @ status_events status @ evs2)"
            by (auto simp: bind_eq_Some_conv)
          from IH [OF rec] have "P w1 r2 w2 evs2" by simp
          with continued [of w status w1 evs1 r2 w2 evs2] nc Inr res False y
          show ?thesis by simp
        qed
      qed
    qed
  qed
  then show ?thesis by simp
qed

lemma fractions_append [simp]: "fractions (xs @ ys) = fractions xs @ fractions ys"
  by (induction xs rule: fractions.induct) auto

lemma retry_from_fractions:
  assumes "next_chunk_with_retry_from env request max_retries base_delay intento w = (r, w', evs)"
  shows "fractions (outcomes evs) = fractions [r]"
  using assms by (induction rule: next_chunk_with_retry_from_induct) auto

lemma retry_fractions:
  assumes "next_chunk_with_retry env request max_retries base_delay w = (r, w', evs)"
  shows "fractions (outcomes evs) = fractions [r]"
  using assms retry_from_fractions by (simp add: next_chunk_with_retry_def)

lemma retry_quiet:
  assumes "next_chunk_with_retry env request max_retries base_delay w = (r, w', evs)"
  shows "statuses evs = []" "progress_values evs = []" "removes evs = []"
  using assms retry_no_callbacks [of env request max_retries base_delay 0 w r w' evs]
  by (simp_all add: next_chunk_with_retry_def)

lemma status_events_simps [simp]:
  "statuses (status_events status) = []"
  "removes (status_events status) = []"
  "outcomes (status_events status) = []"
  "progress_values (status_events status) = map percent (fractions [Inr (status, d)])"
  by (cases status; simp add: status_events_def)+


lemma transfer_loop_removes:
  assumes "transfer_loop env request w = Some (r, w', evs)"
  shows "removes evs = []"
  using assms by (induction rule: transfer_loop_induct) (simp_all add: retry_quiet)

lemma transfer_loop_progress:
  assumes "transfer_loop env request w = Some (r, w', evs)"
  shows "progress_values evs = map percent (fractions (outcomes evs))"
  using assms
proof (induction rule: transfer_loop_induct)
  case (raised w e w' evs)
  then show ?case using retry_fractions [OF raised] by (simp add: retry_quiet)
next
  case (finished w status w' evs)
  then show ?case
    using retry_fractions [OF finished] status_events_simps(4) [of status True]
    by (simp add: retry_quiet)
next
  case (continued w status w1 evs r w' evs')
  then show ?case
    using retry_fractions [OF continued(1)] status_events_simps(4) [of status False]
    by (simp add: retry_quiet)
qed

lemma upload_one_cases:
  assumes "upload_one env service carpeta_id ntotal i ruta w = Some (r, w', evs)"
  obtains (refused) e where
      "create_request env service \<lparr>name = basename ruta, parents = [carpeta_id]\<rparr> ruta
         CHUNK_SIZE w = (Inl e, w')"
      "r = Inl e"
      "evs = [Status (subiendo_msg i ntotal (basename ruta)), Progress 0]"
  | (transferred) request w1 evs' where
      "create_request env service \<lparr>name = basename ruta, parents = [carpeta_id]\<rparr> ruta
         CHUNK_SIZE w = (Inr request, w1)"
      "transfer_loop env request w1 = Some (r, w', evs')"
      "evs = [Status (subiendo_msg i ntotal (basename ruta)), Progress 0] @ evs'"
  using assms
  by (auto simp: upload_one_def Let_def bind_eq_Some_conv split: prod.splits sum.splits)


lemma upload_one_removes:
  assumes "upload_one env service carpeta_id ntotal i ruta w = Some (r, w', evs)"
  shows "removes evs = []"
  using assms by (cases rule: upload_one_cases) (simp_all add: transfer_loop_removes)

lemma upload_one_progress:
  assumes "upload_one env service carpeta_id ntotal i ruta w = Some (r, w', evs)"
  shows "progress_values evs = 0 # map percent (fractions (outcomes evs))"
  using assms by (cases rule: upload_one_cases) (simp_all add: transfer_loop_progress)

lemma py_int_mono: "x \<le> y \<Longrightarrow> py_int x \<le> py_int y"
  unfolding py_int_def by (auto intro: floor_mono ceiling_mono order_trans [of "\<lceil>x\<rceil>" 0 "\<lfloor>y\<rfloor>"])

lemma percent_mono: "f \<le> g \<Longrightarrow> percent f \<le> percent g"
  unfolding percent_def by (rule py_int_mono) simp

lemma percent_0 [simp]: "percent 0 = 0" and percent_1 [simp]: "percent 1 = 100"
  by (simp_all add: percent_def py_int_def)

lemma percent_range: "0 \<le> f \<Longrightarrow> f \<le> 1 \<Longrightarrow> 0 \<le> percent f \<and> percent f \<le> 100"
  using percent_mono [of 0 f] percent_mono [of f 1] by simp

lemma sorted_percents:
  assumes "sorted fs" and "\<forall>f \<in> set fs. 0 \<le> f \<and> f \<le> 1"
  shows "sorted (0 # map percent fs) \<and> (\<forall>p \<in> set (0 # map percent fs). 0 \<le> p \<and> p \<le> 100)"
proof -
  have "sorted (map percent fs)"
    using assms(1) by (induction fs) (auto intro: percent_mono)
  moreover have "\<forall>p \<in> set (map percent fs). 0 \<le> p \<and> p \<le> 100"
    using assms(2) percent_range by auto
  ultimately show ?thesis by simp
qed

text \<open>
  C9 (amended). Within one file's session the progress callback gets 0 and then
  \<open>int(fraction * 100)\<close> for each status the remote returned, in order. The values are
  non-decreasing and within 0..100 whenever the fractions the remote returned are
  non-decreasing and within 0..1; the code neither orders nor clamps them.
\<close>

theorem session_progress_follows_remote:
  assumes "upload_one env service carpeta_id ntotal i ruta w = Some (r, w', evs)"
  shows "progress_values evs = 0 # map percent (fractions (outcomes evs)) \<and>
         (sorted (fractions (outcomes evs)) \<and>
          (\<forall>f \<in> set (fractions (outcomes evs)). 0 \<le> f \<and> f \<le> 1) \<longrightarrow>
          sorted (progress_values evs) \<and>
          (\<forall>p \<in> set (progress_values evs). 0 \<le> p \<and> p \<le> 100))"
  using upload_one_progress [OF assms] sorted_percents [of "fractions (outcomes evs)"]
  by simp

section \<open>Properties of the batch\<close>

lemma upload_each_Cons_cases:
  assumes "upload_each env service carpeta_id ntotal i (ruta # rest) w = Some (r, w', evs)"
  obtains (failed) e where
      "upload_one env service carpeta_id ntotal i ruta w = Some (Inl e, w', evs)" "r = Inl e"
  | (went_on) w1 evs1 evs2 where
      "upload_one env service carpeta_id ntotal i ruta w = Some (Inr (), w1, evs1)"
      "upload_each env service carpeta_id ntotal (i + 1) rest w1 = Some (r, w', evs2)"
      "evs = evs1 @ evs2"
  using assms
  by (auto simp: bind_eq_Some_conv split: option.splits prod.splits sum.splits)

lemma upload_each_removes:
  assumes "upload_each env service carpeta_id ntotal i rutas w = Some (r, w', evs)"
  shows "removes evs = []"
  using assms
proof (induction rutas arbitrary: i w evs)
  case Nil
  then show ?case by simp
next
  case (Cons ruta rest)
  from Cons.prems show ?case
    by (cases rule: upload_each_Cons_cases) (auto simp: upload_one_removes dest: Cons.IH)
qed



lemma cleanup_events: "snd (cleanup env rutas w) = map Remove rutas"
proof (induction rutas arbitrary: w)
  case Nil
  then show ?case by simp
next
  case (Cons ruta rest)
  obtain x w1 where rm: "os_remove env ruta w = (x, w1)" by (cases "os_remove env ruta w")
  obtain w2 evs where rec: "cleanup env rest w1 = (w2, evs)" by (cases "cleanup env rest w1")
  have "evs = map Remove rest" using Cons.IH [of w1] rec by simp
  with rm rec show ?case by (cases x) simp_all
qed

lemma try_block_cases:
  assumes "try_block CUENTAS env cuenta rutas w = Some (r, w', evs)"
  obtains (no_service) e where
      "get_service CUENTAS env cuenta w = (Inl e, w')" "r = Inl e" "evs = []"
  | (no_carpeta) service e where
      "get_service CUENTAS env cuenta w = (Inr service, w')"
      "carpeta_of CUENTAS cuenta = Inl e" "r = Inl e" "evs = []"
  | (failed) service w1 carpeta_id e where
      "get_service CUENTAS env cuenta w = (Inr service, w1)"
      "carpeta_of CUENTAS cuenta = Inr carpeta_id"
      "upload_each env service carpeta_id (length rutas) 1 rutas w1 = Some (Inl e, w', evs)"
      "r = Inl e"
  | (completed) service w1 carpeta_id evs' where
      "get_service CUENTAS env cuenta w = (Inr service, w1)"
      "carpeta_of CUENTAS cuenta = Inr carpeta_id"
      "upload_each env service carpeta_id (length rutas) 1 rutas w1 = Some (Inr (), w', evs')"
      "r = Inr ()" "evs = evs' @ [Progress 100, Status completada_msg]"
proof -
  obtain x w1 where gs: "get_service CUENTAS env cuenta w = (x, w1)"
    by (cases "get_service CUENTAS env cuenta w")
  show thesis
  proof (cases x)
    case (Inl e)
    with gs assms have "w' = w1" "r = Inl e" "evs = []" by (simp_all add: try_block_def)
    with gs Inl show thesis using no_service by simp
  next
    case service: (Inr service)
    show thesis
    proof (cases "carpeta_of CUENTAS cuenta")
      case (Inl e)
      with gs service assms have "w' = w1" "r = Inl e" "evs = []"
        by (simp_all add: try_block_def)
      with gs service Inl show thesis using no_carpeta by simp
    next
      case (Inr carpeta_id)
      from gs service Inr assms
      obtain r2 w2 evs2 where ue:
        "upload_each env service carpeta_id (length rutas) 1 rutas w1 = Some (r2, w2, evs2)"
        by (cases "upload_each env service carpeta_id (length rutas) 1 rutas w1")
           (auto simp: try_block_def)
      show thesis
      proof (cases r2)
        case (Inl e)
        with gs service Inr ue assms have "w' = w2" "r = Inl e" "evs = evs2"
          by (simp_all add: try_block_def)
        with gs service Inr ue Inl show thesis using failed by simp
      next
        case u: (Inr u)
        with gs service Inr ue assms
        have "w' = w2" "r = Inr ()" "evs = evs2 @ [Progress 100, Status completada_msg]"
          by (simp_all add: try_block_def)
        with gs service \<open>carpeta_of CUENTAS cuenta = Inr carpeta_id\<close> ue u
        show thesis using completed by simp
      qed
    qed
  qed
qed

lemma try_block_removes:
  assumes "try_block CUENTAS env cuenta rutas w = Some (r, w', evs)"
  shows "removes evs = []"
  using assms
  by (cases rule: try_block_cases) (simp_all add: upload_each_removes)

lemma upload_files_events:
  assumes "try_block CUENTAS env cuenta rutas w = Some (r, w1, evs)"
  shows "upload_files CUENTAS env cuenta rutas w =
           Some (fst (cleanup env rutas w1),
                 evs @ (case r of Inl e \<Rightarrow> [Status (error_msg e)] | Inr u \<Rightarrow> []) @
                 map Remove rutas)"
proof -
  obtain w2 removed where cl: "cleanup env rutas w1 = (w2, removed)"
    by (cases "cleanup env rutas w1")
  with cleanup_events [of env rutas w1] have "removed = map Remove rutas" by simp
  with cl assms show ?thesis by (simp add: upload_files_def)
qed

lemma try_block_terminal:
  assumes "try_block CUENTAS env cuenta rutas w = Some (Inr u, w1, evs)"
  shows "\<exists>evs'. evs = evs' @ [Progress 100, Status completada_msg]"
  using assms by (cases rule: try_block_cases) simp_all

lemma cleanup_world:
  "fst (cleanup env rutas w) = foldl (\<lambda>w ruta. snd (os_remove env ruta w)) w rutas"
proof (induction rutas arbitrary: w)
  case Nil
  then show ?case by simp
next
  case (Cons ruta rest)
  obtain x w1 where rm: "os_remove env ruta w = (x, w1)" by (cases "os_remove env ruta w")
  obtain w2 evs where rec: "cleanup env rest w1 = (w2, evs)" by (cases "cleanup env rest w1")
  have "w2 = foldl (\<lambda>w ruta. snd (os_remove env ruta w)) w1 rest"
    using Cons.IH [of w1] rec by simp
  with rm rec show ?case by (cases x) simp_all
qed

text \<open>
  C6 (amended). Whenever \<open>upload_files\<close> returns, its events end with one \<open>os.remove\<close>
  for each entry of \<open>rutas\<close>, in order, and no \<open>os.remove\<close> happens before: the removals
  follow the terminal status (the success message or the error message). The world it
  returns is the world the \<open>try\<close> block left with \<open>os.remove\<close> applied to every entry of
  \<open>rutas\<close> in turn, whatever each \<open>os.remove\<close> returned or raised: a removal that fails
  stops nothing, and \<open>upload_files\<close> raises nothing. There is one removal per entry, so
  each staged file is removed once when \<open>rutas\<close> names no path twice.
\<close>

theorem cleanup_after_terminal_state:
  assumes "upload_files CUENTAS env cuenta rutas w = Some (w', evs)"
  shows "\<exists>r w1 body before terminal.
           try_block CUENTAS env cuenta rutas w = Some (r, w1, body) \<and>
           w' = foldl (\<lambda>w ruta. snd (os_remove env ruta w)) w1 rutas \<and>
           evs = before @ [Status terminal] @ map Remove rutas \<and>
           removes before = [] \<and>
           removes evs = rutas \<and>
           (distinct rutas \<longrightarrow> distinct (removes evs)) \<and>
           (terminal = completada_msg \<or> (\<exists>e. terminal = error_msg e))"
proof -
  obtain r w1 evs1 where tb: "try_block CUENTAS env cuenta rutas w = Some (r, w1, evs1)"
    using assms by (cases "try_block CUENTAS env cuenta rutas w") (auto simp: upload_files_def)
  have run: "upload_files CUENTAS env cuenta rutas w =
      Some (fst (cleanup env rutas w1),
            evs1 @ (case r of Inl e \<Rightarrow> [Status (error_msg e)] | Inr u \<Rightarrow> []) @
            map Remove rutas)"
    by (rule upload_files_events [OF tb])
  have world: "w' = foldl (\<lambda>w ruta. snd (os_remove env ruta w)) w1 rutas"
    using run assms cleanup_world [of env rutas w1] by simp
  have evs: "evs = evs1 @ (case r of Inl e \<Rightarrow> [Status (error_msg e)] | Inr u \<Rightarrow> []) @
               map Remove rutas"
    using run assms by simp
  have quiet: "removes evs1 = []" by (rule try_block_removes [OF tb])
  have rm: "removes (map Remove rutas) = rutas" by (induction rutas) auto
  show ?thesis
  proof (cases r)
    case (Inl e)
    have "evs = evs1 @ [Status (error_msg e)] @ map Remove rutas"
      using evs Inl by simp
    moreover have "removes evs = rutas" using evs quiet rm Inl by simp
    moreover have "error_msg e = completada_msg \<or> (\<exists>e'. error_msg e = error_msg e')"
      by (intro disjI2 exI) (rule refl)
    ultimately have "try_block CUENTAS env cuenta rutas w = Some (r, w1, evs1) \<and>
        w' = foldl (\<lambda>w ruta. snd (os_remove env ruta w)) w1 rutas \<and>
        evs = evs1 @ [Status (error_msg e)] @ map Remove rutas \<and>
        removes evs1 = [] \<and> removes evs = rutas \<and>
        (distinct rutas \<longrightarrow> distinct (removes evs)) \<and>
        (error_msg e = completada_msg \<or> (\<exists>e'. error_msg e = error_msg e'))"
      using quiet tb world by simp
    then show ?thesis
      by (intro exI [of _ r] exI [of _ w1] exI [of _ evs1] exI [of _ "error_msg e"])
  next
    case (Inr u)
    with tb have "try_block CUENTAS env cuenta rutas w = Some (Inr u, w1, evs1)" by simp
    from try_block_terminal [OF this]
    obtain evs' where e': "evs1 = evs' @ [Progress 100, Status completada_msg]" ..
    with quiet have "removes (evs' @ [Progress 100]) = []" by simp
    moreover have "evs = (evs' @ [Progress 100]) @ [Status completada_msg] @ map Remove rutas"
      using evs e' Inr by simp
    moreover have "removes evs = rutas" using evs quiet rm Inr by simp
    ultimately have "try_block CUENTAS env cuenta rutas w = Some (r, w1, evs1) \<and>
        w' = foldl (\<lambda>w ruta. snd (os_remove env ruta w)) w1 rutas \<and>
        evs = (evs' @ [Progress 100]) @ [Status completada_msg] @ map Remove rutas \<and>
        removes (evs' @ [Progress 100]) = [] \<and> removes evs = rutas \<and>
        (distinct rutas \<longrightarrow> distinct (removes evs)) \<and>
        (completada_msg = completada_msg \<or> (\<exists>e'. completada_msg = error_msg e'))"
      using tb world by simp
    then show ?thesis
      by (intro exI [of _ r] exI [of _ w1] exI [of _ evs1]
            exI [of _ "evs' @ [Progress 100]"] exI [of _ completada_msg])
  qed
qed


section \<open>Runs of the scripted collaborators\<close>

lemma scripted_simps:
  "authorize (scripted locked) token_file w = (Inr (), w)"
  "create_request (scripted locked) service metadata ruta chunksize w = (Inr (), w)"
  "next_chunk (scripted locked) request [] = (Inr (None, True), [])"
  "next_chunk (scripted locked) request (x # rest) = (x, rest)"
  "os_remove (scripted locked) ruta w =
     (if ruta \<in> locked
      then Some \<lparr>exn_class = OSError, type_name = ''PermissionError'',
                 exn_text = ''[Errno 13] Permission denied''\<rparr>
      else None, w)"
  by (simp_all add: scripted_def)

lemma caught_fixtures: "caught grant_error" "caught timeout_error"
  by (simp_all add: caught_def grant_error_def timeout_error_def)

lemma transient_fixtures: "\<not> is_transient grant_error" "is_transient timeout_error"
  by code_simp+

lemmas text_simps = subiendo_msg_def basename_def str_nat.simps digit_char_def

lemma percent_half: "percent (1 / 2) = 50" "percent 0.5 = 50" "percent 0.3 = 30"
  by (simp_all add: percent_def py_int_def)

lemma session_a:
  "upload_one (scripted locked) () ''folder1'' 3 1 ''temp_uploads/a.pdf''
     [Inr (Some 0.5, False), Inr (None, True), Inl grant_error]
   = Some (Inr (), [Inl grant_error],
       [Status ''Subiendo (1/3): a.pdf'', Progress 0, NextChunk (Inr (Some 0.5, False)),
        Progress 50, NextChunk (Inr (None, True))])"
  by (simp add: upload_one_def Let_def scripted_simps transfer_loop.simps
        next_chunk_with_retry_def next_chunk_with_retry_from.simps status_events_def
        text_simps percent_half)

lemma session_b:
  "upload_one (scripted locked) () ''folder1'' 3 2 ''temp_uploads/b.pdf'' [Inl grant_error]
   = Some (Inl grant_error, [],
       [Status ''Subiendo (2/3): b.pdf'', Progress 0, NextChunk (Inl grant_error)])"
  by (simp add: upload_one_def Let_def scripted_simps transfer_loop.simps
        next_chunk_with_retry_def next_chunk_with_retry_from.simps status_events_def
        text_simps caught_fixtures transient_fixtures)


lemma account_fixtures:
  "get_service one_account (scripted locked) ''penal'' w = (Inr (), w)"
  "carpeta_of one_account ''penal'' = Inr ''folder1''"
  "one_account ''nadie'' = None"
  by (simp_all add: get_service_def carpeta_of_def one_account_def scripted_simps)

lemma cleanup_fixture:
  "cleanup (scripted locked) rutas w = (w, map Remove rutas)"
  by (induction rutas) (simp_all add: scripted_simps)

section \<open>The final progress callback\<close>

text \<open>
  A file whose session ends with \<open>done\<close> gets the progress values 0 and 50 and no 100
  before the next file is started; the only 100 of the batch follows the last file.
\<close>

theorem no_final_progress_counterexample:
  "upload_one (scripted {}) () ''folder1'' 2 1 ''temp_uploads/a.pdf''
     [Inr (Some 0.5, False), Inr (None, True), Inr (None, True)]
   = Some (Inr (), [Inr (None, True)],
       [Status ''Subiendo (1/2): a.pdf'', Progress 0, NextChunk (Inr (Some 0.5, False)),
        Progress 50, NextChunk (Inr (None, True))]) \<and>
   progress_values
       [Status ''Subiendo (1/2): a.pdf'', Progress 0, NextChunk (Inr (Some 0.5, False)),
        Progress 50, NextChunk (Inr (None, True))] = [0, 50] \<and>
   upload_files one_account (scripted {}) ''penal'' [''temp_uploads/a.pdf'', ''temp_uploads/b.pdf'']
     [Inr (Some 0.5, False), Inr (None, True), Inr (None, True)]
   = Some ([],
       [Status ''Subiendo (1/2): a.pdf'', Progress 0, NextChunk (Inr (Some 0.5, False)),
        Progress 50, NextChunk (Inr (None, True)),
        Status ''Subiendo (2/2): b.pdf'', Progress 0, NextChunk (Inr (None, True)),
        Progress 100, Status completada_msg,
        Remove ''temp_uploads/a.pdf'', Remove ''temp_uploads/b.pdf''])"
  by (simp add: upload_files_def try_block_def account_fixtures cleanup_fixture
        upload_one_def Let_def scripted_simps transfer_loop.simps
        next_chunk_with_retry_def next_chunk_with_retry_from.simps status_events_def
        text_simps percent_half)

lemmas run_simps =
  upload_files_def try_block_def account_fixtures cleanup_fixture upload_one_def Let_def
  scripted_simps transfer_loop.simps next_chunk_with_retry_def
  next_chunk_with_retry_from.simps status_events_def text_simps percent_half
  caught_fixtures transient_fixtures

lemma upload_one_hundred:
  assumes "upload_one env service carpeta_id ntotal i ruta w = Some (r, w', evs)"
  shows "100 \<in> set (progress_values evs) \<longleftrightarrow>
           (\<exists>f. f \<in> set (fractions (outcomes evs)) \<and> percent f = 100)"
  using upload_one_progress [OF assms] by auto

lemma upload_files_completed:
  assumes "get_service CUENTAS env cuenta w = (Inr service, w1)"
    and "carpeta_of CUENTAS cuenta = Inr carpeta_id"
    and "upload_each env service carpeta_id (length rutas) 1 rutas w1 = Some (Inr (), w2, evs)"
  shows "upload_files CUENTAS env cuenta rutas w =
           Some (fst (cleanup env rutas w2),
                 evs @ [Progress 100, Status completada_msg] @ map Remove rutas)"
proof -
  have "try_block CUENTAS env cuenta rutas w =
          Some (Inr (), w2, evs @ [Progress 100, Status completada_msg])"
    using assms by (simp add: try_block_def)
  from upload_files_events [OF this] show ?thesis by simp
qed

text \<open>
  C7 (amended). Within one file's session the value 100 is passed to the progress
  callback only if the remote returned a status whose fraction gives 100. The callback
  with exactly 100 that the code itself issues comes once per batch: when every file was
  transferred, it follows the events of the last file and is followed by the success
  status and the removals.
\<close>

theorem final_progress_once_per_batch:
  "(upload_one env service carpeta_id ntotal i ruta w = Some (r, w', evs) \<longrightarrow>
      (100 \<in> set (progress_values evs) \<longleftrightarrow>
         (\<exists>f. f \<in> set (fractions (outcomes evs)) \<and> percent f = 100))) \<and>
   (get_service CUENTAS env cuenta w0 = (Inr service, w1) \<and>
    carpeta_of CUENTAS cuenta = Inr carpeta_id \<and>
    upload_each env service carpeta_id (length rutas) 1 rutas w1 = Some (Inr (), w2, evs_all) \<longrightarrow>
      upload_files CUENTAS env cuenta rutas w0 =
        Some (fst (cleanup env rutas w2),
              evs_all @ [Progress 100, Status completada_msg] @ map Remove rutas))"
proof (intro conjI impI)
  assume "upload_one env service carpeta_id ntotal i ruta w = Some (r, w', evs)"
  then show "100 \<in> set (progress_values evs) \<longleftrightarrow>
               (\<exists>f. f \<in> set (fractions (outcomes evs)) \<and> percent f = 100)"
    by (rule upload_one_hundred)
next
  assume "get_service CUENTAS env cuenta w0 = (Inr service, w1) \<and>
          carpeta_of CUENTAS cuenta = Inr carpeta_id \<and>
          upload_each env service carpeta_id (length rutas) 1 rutas w1
            = Some (Inr (), w2, evs_all)"
  then show "upload_files CUENTAS env cuenta rutas w0 =
        Some (fst (cleanup env rutas w2),
              evs_all @ [Progress 100, Status completada_msg] @ map Remove rutas)"
    using upload_files_completed [of CUENTAS env cuenta w0 service w1 carpeta_id rutas w2 evs_all]
    by simp
qed

theorem final_progress_once_per_batch_witness:
  "100 \<notin> set (progress_values
       [Status ''Subiendo (1/2): a.pdf'', Progress 0, NextChunk (Inr (Some 0.5, False)),
        Progress 50, NextChunk (Inr (None, True))]) \<and>
   upload_files one_account (scripted {}) ''penal'' [''temp_uploads/a.pdf'', ''temp_uploads/b.pdf'']
     [Inr (Some 0.5, False), Inr (None, True), Inr (None, True)]
   = Some ([],
       [Status ''Subiendo (1/2): a.pdf'', Progress 0, NextChunk (Inr (Some 0.5, False)),
        Progress 50, NextChunk (Inr (None, True)),
        Status ''Subiendo (2/2): b.pdf'', Progress 0, NextChunk (Inr (None, True)),
        Progress 100, Status completada_msg,
        Remove ''temp_uploads/a.pdf'', Remove ''temp_uploads/b.pdf''])"
proof -
  let ?script = "[Inr (Some 0.5, False), Inr (None, True), Inr (None, True)] :: (exn + chunk) list"
  let ?evs_a = "[Status ''Subiendo (1/2): a.pdf'', Progress 0, NextChunk (Inr (Some 0.5, False)),
        Progress 50, NextChunk (Inr (None, True))]"
  let ?evs_all = "?evs_a @ [Status ''Subiendo (2/2): b.pdf'', Progress 0, NextChunk (Inr (None, True))]"
  have one: "upload_one (scripted {}) () ''folder1'' 2 1 ''temp_uploads/a.pdf'' ?script
               = Some (Inr (), [Inr (None, True)], ?evs_a)"
    by (simp add: run_simps)
  have each: "upload_each (scripted {}) () ''folder1''
                (length [''temp_uploads/a.pdf'', ''temp_uploads/b.pdf'']) 1
                [''temp_uploads/a.pdf'', ''temp_uploads/b.pdf''] ?script
               = Some (Inr (), [], ?evs_all)"
    by (simp add: run_simps)
  have fr: "\<not> (\<exists>f. f \<in> set (fractions (outcomes ?evs_a)) \<and> percent f = 100)"
  proof
    assume "\<exists>f. f \<in> set (fractions (outcomes ?evs_a)) \<and> percent f = 100"
    then obtain f where "f \<in> set (fractions (outcomes ?evs_a))" and p: "percent f = 100"
      by blast
    then have "f = 1 / 2" by simp
    with p show False by (simp add: percent_half)
  qed
  note inst = final_progress_once_per_batch
    [of "scripted {}" "()" "''folder1''" 2 1 "''temp_uploads/a.pdf''" ?script "Inr ()"
        "[Inr (None, True)]" ?evs_a one_account "''penal''" ?script ?script
        "[''temp_uploads/a.pdf'', ''temp_uploads/b.pdf'']" "[]" ?evs_all]
  from inst one fr have "100 \<notin> set (progress_values ?evs_a)" by blast
  moreover from inst each
  have "upload_files one_account (scripted {}) ''penal''
          [''temp_uploads/a.pdf'', ''temp_uploads/b.pdf''] ?script
        = Some (fst (cleanup (scripted {}) [''temp_uploads/a.pdf'', ''temp_uploads/b.pdf''] []),
            ?evs_all @ [Progress 100, Status completada_msg] @
            map Remove [''temp_uploads/a.pdf'', ''temp_uploads/b.pdf''])"
    by (simp add: account_fixtures del: cleanup.simps)
  ultimately show ?thesis by (simp add: cleanup_fixture del: cleanup.simps)
qed

section \<open>Properties of the intake\<close>

lemma upload_files_unknown_account:
  assumes "CUENTAS cuenta = None"
  shows "upload_files CUENTAS env cuenta rutas w =
           Some (fst (cleanup env rutas w),
                 [Status (error_msg (key_error (''Cuenta desconocida: '' @ cuenta)))] @
                 map Remove rutas)"
proof -
  have "try_block CUENTAS env cuenta rutas w =
          Some (Inl (key_error (''Cuenta desconocida: '' @ cuenta)), w, [])"
    using assms by (simp add: try_block_def get_service_def)
  from upload_files_events [OF this] show ?thesis by simp
qed

lemma disk_simps:
  "authorize (disk locked) token_file w = (Inr (), w)"
  "create_request (disk locked) service metadata ruta chunksize w = (Inr (), w)"
  "next_chunk (disk locked) request ([], files) = (Inr (None, True), ([], files))"
  "next_chunk (disk locked) request (x # rest, files) = (x, (rest, files))"
  "os_remove (disk locked) ruta (script, files) =
     (if ruta \<in> locked then (Some permission_error, (script, files))
      else if ruta \<in> set files then (None, (script, removeAll ruta files))
      else (Some file_not_found_error, (script, files)))"
  by (simp_all add: disk_def)

lemma disk_account_fixtures:
  "get_service one_account (disk locked) ''penal'' w = (Inr (), w)"
  by (simp add: get_service_def one_account_def disk_simps)

lemmas disk_run_simps =
  upload_files_def try_block_def account_fixtures disk_account_fixtures upload_one_def Let_def
  disk_simps transfer_loop.simps next_chunk_with_retry_def
  next_chunk_with_retry_from.simps status_events_def text_simps percent_half
  caught_fixtures transient_fixtures

text \<open>
  C8 (amended). \<open>upload\<close> answers 400 with an error message, saves no file, starts no
  worker and leaves the world as it was when the account is missing or empty or the file
  list is empty, and when the account is not one of \<open>CUENTAS\<close>. Files are staged only
  after these checks, so a rejected request has staged nothing, and it removes nothing
  that was on disk before.
\<close>

theorem upload_rejects:
  "(cuenta = None \<or> cuenta = Some [] \<or> files = [] \<longrightarrow>
      upload CUENTAS secure_filename save UPLOAD_DIR cuenta files w =
        (Inr (Response 400 [(''error'', faltan_msg)]), w, [])) \<and>
   (c \<noteq> [] \<and> files \<noteq> [] \<and> CUENTAS c = None \<longrightarrow>
      upload CUENTAS secure_filename save UPLOAD_DIR (Some c) files w =
        (Inr (Response 400 [(''error'', ''Cuenta desconocida: '' @ c)]), w, []))"
proof (intro conjI impI)
  assume "cuenta = None \<or> cuenta = Some [] \<or> files = []"
  then show "upload CUENTAS secure_filename save UPLOAD_DIR cuenta files w =
        (Inr (Response 400 [(''error'', faltan_msg)]), w, [])"
    by (cases cuenta) (auto simp: upload_def)
next
  assume "c \<noteq> [] \<and> files \<noteq> [] \<and> CUENTAS c = None"
  then show "upload CUENTAS secure_filename save UPLOAD_DIR (Some c) files w =
        (Inr (Response 400 [(''error'', ''Cuenta desconocida: '' @ c)]), w, [])"
    by (simp add: upload_def)
qed

text \<open>
  A request for an account that is not in \<open>CUENTAS\<close>, with a staged file of an earlier
  request on disk: the answer is 400, nothing happens, and the file is still there.
\<close>

theorem upload_reject_cleans_nothing_counterexample:
  "upload one_account plain_filename save_on_disk ''temp_uploads'' (Some ''nadie'') [a_pdf]
     ([], [''temp_uploads/old.pdf''])
   = (Inr (Response 400 [(''error'', ''Cuenta desconocida: nadie'')]),
      ([], [''temp_uploads/old.pdf'']), []) \<and>
   removes [] = []"
  by (simp add: upload_def one_account_def)

theorem upload_rejects_witness:
  "upload one_account plain_filename save_on_disk ''temp_uploads'' (Some ''penal'') []
     ([], [])
   = (Inr (Response 400 [(''error'', faltan_msg)]), ([], []), []) \<and>
   upload one_account plain_filename save_on_disk ''temp_uploads'' (Some ''nadie'') [a_pdf]
     ([], [])
   = (Inr (Response 400 [(''error'', ''Cuenta desconocida: nadie'')]), ([], []), []) \<and>
   upload one_account plain_filename save_on_disk ''temp_uploads'' (Some ''penal'') [a_pdf]
     ([], [])
   = (Inr (Response 202 [(''status'', ''Subida iniciada'')]), ([], [''temp_uploads/a.pdf'']),
      [Save ''temp_uploads/a.pdf'', StartThread ''penal'' [''temp_uploads/a.pdf'']])"
proof -
  let ?w = "([], []) :: (exn + chunk) list \<times> string list"
  note empty_list = upload_rejects
    [of "Some ''penal''" "[]" one_account plain_filename save_on_disk "''temp_uploads''" ?w
        "''nadie''"]
  note unknown = upload_rejects
    [of "Some ''nadie''" "[a_pdf]" one_account plain_filename save_on_disk "''temp_uploads''" ?w
        "''nadie''"]
  have known: "one_account ''nadie'' = None" "one_account ''penal'' \<noteq> None"
    by (simp_all add: one_account_def)
  have accepted: "upload one_account plain_filename save_on_disk ''temp_uploads''
     (Some ''penal'') [a_pdf] ?w
     = (Inr (Response 202 [(''status'', ''Subida iniciada'')]), ([], [''temp_uploads/a.pdf'']),
        [Save ''temp_uploads/a.pdf'', StartThread ''penal'' [''temp_uploads/a.pdf'']])"
    by (simp add: upload_def known path_join_def Let_def a_pdf_def plain_filename_def
          save_on_disk_def)
  from empty_list unknown known accepted show ?thesis by simp
qed


theorem cleanup_after_terminal_state_witness:
  "upload_files one_account (disk {''temp_uploads/a.pdf''}) ''penal''
     [''temp_uploads/a.pdf'', ''temp_uploads/b.pdf'']
     ([Inr (None, True), Inl grant_error],
      [''temp_uploads/a.pdf'', ''temp_uploads/b.pdf'', ''temp_uploads/other.pdf''])
   = Some (([], [''temp_uploads/a.pdf'', ''temp_uploads/other.pdf'']),
       [Status ''Subiendo (1/2): a.pdf'', Progress 0, NextChunk (Inr (None, True)),
        Status ''Subiendo (2/2): b.pdf'', Progress 0, NextChunk (Inl grant_error),
        Status (error_msg grant_error),
        Remove ''temp_uploads/a.pdf'', Remove ''temp_uploads/b.pdf'']) \<and>
   os_remove (disk {''temp_uploads/a.pdf''}) ''temp_uploads/a.pdf''
     ([], [''temp_uploads/a.pdf'', ''temp_uploads/b.pdf'', ''temp_uploads/other.pdf''])
   = (Some permission_error,
      ([], [''temp_uploads/a.pdf'', ''temp_uploads/b.pdf'', ''temp_uploads/other.pdf''])) \<and>
   removes
       [Status ''Subiendo (1/2): a.pdf'', Progress 0, NextChunk (Inr (None, True)),
        Status ''Subiendo (2/2): b.pdf'', Progress 0, NextChunk (Inl grant_error),
        Status (error_msg grant_error),
        Remove ''temp_uploads/a.pdf'', Remove ''temp_uploads/b.pdf'']
     = [''temp_uploads/a.pdf'', ''temp_uploads/b.pdf'']"
proof -
  let ?files = "[''temp_uploads/a.pdf'', ''temp_uploads/b.pdf'', ''temp_uploads/other.pdf'']"
  let ?evs = "[Status ''Subiendo (1/2): a.pdf'', Progress 0, NextChunk (Inr (None, True)),
        Status ''Subiendo (2/2): b.pdf'', Progress 0, NextChunk (Inl grant_error),
        Status (error_msg grant_error),
        Remove ''temp_uploads/a.pdf'', Remove ''temp_uploads/b.pdf'']"
  have run: "upload_files one_account (disk {''temp_uploads/a.pdf''}) ''penal''
     [''temp_uploads/a.pdf'', ''temp_uploads/b.pdf'']
     ([Inr (None, True), Inl grant_error], ?files)
   = Some (([], [''temp_uploads/a.pdf'', ''temp_uploads/other.pdf'']), ?evs)"
    by (simp add: disk_run_simps)
  have locked: "os_remove (disk {''temp_uploads/a.pdf''}) ''temp_uploads/a.pdf'' ([], ?files)
     = (Some permission_error, ([], ?files))"
    by (simp add: disk_simps)
  from cleanup_after_terminal_state [OF run]
  have "removes ?evs = [''temp_uploads/a.pdf'', ''temp_uploads/b.pdf'']" by blast
  with run locked show ?thesis by simp
qed

text \<open>
  Two uploaded files of the same name are saved to one path, and \<open>rutas\<close> holds that path
  twice; the worker then calls \<open>os.remove\<close> twice on the one staged file, and the second
  call raises \<open>FileNotFoundError\<close>.
\<close>

theorem duplicate_path_removed_twice_counterexample:
  "upload one_account plain_filename save_on_disk ''temp_uploads'' (Some ''penal'')
     [a_pdf, a_pdf] ([], [])
   = (Inr (Response 202 [(''status'', ''Subida iniciada'')]), ([], [''temp_uploads/a.pdf'']),
      [Save ''temp_uploads/a.pdf'', Save ''temp_uploads/a.pdf'',
       StartThread ''penal'' [''temp_uploads/a.pdf'', ''temp_uploads/a.pdf'']]) \<and>
   upload_files one_account (disk {}) ''penal'' [''temp_uploads/a.pdf'', ''temp_uploads/a.pdf'']
     ([], [''temp_uploads/a.pdf''])
   = Some (([], []),
       [Status ''Subiendo (1/2): a.pdf'', Progress 0, NextChunk (Inr (None, True)),
        Status ''Subiendo (2/2): a.pdf'', Progress 0, NextChunk (Inr (None, True)),
        Progress 100, Status completada_msg,
        Remove ''temp_uploads/a.pdf'', Remove ''temp_uploads/a.pdf'']) \<and>
   os_remove (disk {}) ''temp_uploads/a.pdf'' ([], []) = (Some file_not_found_error, ([], [])) \<and>
   count_list
     (removes
       [Status ''Subiendo (1/2): a.pdf'', Progress 0, NextChunk (Inr (None, True)),
        Status ''Subiendo (2/2): a.pdf'', Progress 0, NextChunk (Inr (None, True)),
        Progress 100, Status completada_msg,
        Remove ''temp_uploads/a.pdf'', Remove ''temp_uploads/a.pdf''])
     ''temp_uploads/a.pdf'' = 2"
proof -
  have known: "one_account ''penal'' \<noteq> None" by (simp add: one_account_def)
  have intake: "upload one_account plain_filename save_on_disk ''temp_uploads'' (Some ''penal'')
     [a_pdf, a_pdf] ([], [])
   = (Inr (Response 202 [(''status'', ''Subida iniciada'')]), ([], [''temp_uploads/a.pdf'']),
      [Save ''temp_uploads/a.pdf'', Save ''temp_uploads/a.pdf'',
       StartThread ''penal'' [''temp_uploads/a.pdf'', ''temp_uploads/a.pdf'']])"
    by (simp add: upload_def known path_join_def Let_def a_pdf_def plain_filename_def
          save_on_disk_def)
  have worker: "upload_files one_account (disk {}) ''penal''
     [''temp_uploads/a.pdf'', ''temp_uploads/a.pdf''] ([], [''temp_uploads/a.pdf''])
   = Some (([], []),
       [Status ''Subiendo (1/2): a.pdf'', Progress 0, NextChunk (Inr (None, True)),
        Status ''Subiendo (2/2): a.pdf'', Progress 0, NextChunk (Inr (None, True)),
        Progress 100, Status completada_msg,
        Remove ''temp_uploads/a.pdf'', Remove ''temp_uploads/a.pdf''])"
    by (simp add: disk_run_simps)
  have second: "os_remove (disk {}) ''temp_uploads/a.pdf'' ([], [])
                  = (Some file_not_found_error, ([], []))"
    by (simp add: disk_simps)
  from intake worker second show ?thesis by simp
qed

text \<open>
  A remote that reports the fraction 0.5 and then 0.3 makes the progress callback get
  0, 50, 30.
\<close>

theorem progress_not_monotone_counterexample:
  "upload_one (scripted {}) () ''folder1'' 1 1 ''temp_uploads/a.pdf''
     [Inr (Some 0.5, False), Inr (Some 0.3, False), Inr (None, True)]
   = Some (Inr (), [],
       [Status ''Subiendo (1/1): a.pdf'', Progress 0, NextChunk (Inr (Some 0.5, False)),
        Progress 50, NextChunk (Inr (Some 0.3, False)), Progress 30,
        NextChunk (Inr (None, True))]) \<and>
   progress_values
       [Status ''Subiendo (1/1): a.pdf'', Progress 0, NextChunk (Inr (Some 0.5, False)),
        Progress 50, NextChunk (Inr (Some 0.3, False)), Progress 30,
        NextChunk (Inr (None, True))] = [0, 50, 30] \<and>
   \<not> sorted [0, 50, 30 :: int]"
  by (simp add: run_simps)

theorem session_progress_follows_remote_witness:
  "upload_one (scripted {}) () ''folder1'' 1 1 ''temp_uploads/a.pdf''
     [Inr (Some 0.3, False), Inr (Some 0.5, False), Inr (Some 1, False), Inr (None, True)]
   = Some (Inr (), [],
       [Status ''Subiendo (1/1): a.pdf'', Progress 0, NextChunk (Inr (Some 0.3, False)),
        Progress 30, NextChunk (Inr (Some 0.5, False)), Progress 50,
        NextChunk (Inr (Some 1, False)), Progress 100, NextChunk (Inr (None, True))]) \<and>
   sorted (progress_values
       [Status ''Subiendo (1/1): a.pdf'', Progress 0, NextChunk (Inr (Some 0.3, False)),
        Progress 30, NextChunk (Inr (Some 0.5, False)), Progress 50,
        NextChunk (Inr (Some 1, False)), Progress 100, NextChunk (Inr (None, True))])"
proof -
  let ?evs = "[Status ''Subiendo (1/1): a.pdf'', Progress 0, NextChunk (Inr (Some 0.3, False)),
        Progress 30, NextChunk (Inr (Some 0.5, False)), Progress 50,
        NextChunk (Inr (Some 1, False)), Progress 100, NextChunk (Inr (None, True))]"
  have run: "upload_one (scripted {}) () ''folder1'' 1 1 ''temp_uploads/a.pdf''
     [Inr (Some 0.3, False), Inr (Some 0.5, False), Inr (Some 1, False), Inr (None, True)]
   = Some (Inr (), [], ?evs)"
    by (simp add: run_simps)
  have fr: "fractions (outcomes ?evs) = [0.3, 0.5, 1]" by simp
  have "sorted (fractions (outcomes ?evs)) \<and>
        (\<forall>f \<in> set (fractions (outcomes ?evs)). 0 \<le> f \<and> f \<le> 1)"
    unfolding fr by simp
  with session_progress_follows_remote [OF run] have "sorted (progress_values ?evs)" by blast
  with run show ?thesis by simp
qed

section \<open>Termination against a scripted remote\<close>

text \<open>
  Against a scripted remote every run ends: a call of \<open>next_chunk_with_retry\<close> uses up
  part of the script, or the script has run out and the remote reports the upload done.
\<close>

lemma scripted_retry_consumes:
  assumes "next_chunk_with_retry_from (scripted locked) request max_retries base_delay intento w
             = (r, w', evs)"
  shows "length w' < length w \<or> (\<exists>status. r = Inr (status, True))"
  using assms
proof (induction rule: next_chunk_with_retry_from_induct)
  case (returned intento w res w')
  then show ?case by (cases w) (auto simp: scripted_simps)
next
  case (raised intento w e w')
  then show ?case by (cases w) (auto simp: scripted_simps)
next
  case (refused intento w e w')
  then show ?case by (cases w) (auto simp: scripted_simps)
next
  case (retried intento w e w1 r w' evs)
  from retried(1) have "length w1 < length w" by (cases w) (auto simp: scripted_simps)
  moreover have "length w' \<le> length w1 \<or> (\<exists>status. r = Inr (status, True))"
    using retried(7) by auto
  ultimately show ?case by auto
qed

lemma scripted_transfer_loop_returns:
  "\<exists>res. transfer_loop (scripted locked) request w = Some res"
proof (induction "length w" arbitrary: w rule: less_induct)
  case less
  obtain x w1 evs where nc:
    "next_chunk_with_retry (scripted locked) request default_max_retries default_base_delay w
       = (x, w1, evs)"
    by (cases "next_chunk_with_retry (scripted locked) request default_max_retries
                 default_base_delay w")
  show ?case
  proof (cases x)
    case (Inl e)
    with nc show ?thesis by (subst transfer_loop.simps) simp
  next
    case (Inr res)
    obtain status d where res: "res = (status, d)" by (cases res)
    show ?thesis
    proof (cases d)
      case True
      with nc Inr res show ?thesis by (subst transfer_loop.simps) simp
    next
      case False
      with nc Inr res have "length w1 < length w"
        using scripted_retry_consumes [of locked request default_max_retries
            default_base_delay 0 w x w1 evs]
        by (simp add: next_chunk_with_retry_def)
      then obtain res' where "transfer_loop (scripted locked) request w1 = Some res'"
        using less by blast
      with nc Inr res False show ?thesis
        by (subst transfer_loop.simps) (cases res', simp)
    qed
  qed
qed

lemma scripted_upload_one_returns:
  "\<exists>res. upload_one (scripted locked) service carpeta_id ntotal i ruta w = Some res"
proof -
  obtain res where "transfer_loop (scripted locked) () w = Some res"
    using scripted_transfer_loop_returns by blast
  then show ?thesis
    by (cases res) (simp add: upload_one_def Let_def scripted_simps)
qed

lemma scripted_upload_each_returns:
  "\<exists>res. upload_each (scripted locked) service carpeta_id ntotal i rutas w = Some res"
proof (induction rutas arbitrary: i w)
  case Nil
  then show ?case by simp
next
  case (Cons ruta rest)
  obtain x w1 evs where one:
    "upload_one (scripted locked) service carpeta_id ntotal i ruta w = Some (x, w1, evs)"
    using scripted_upload_one_returns [of locked service carpeta_id ntotal i ruta w]
    by (metis prod_cases3)
  show ?case
  proof (cases x)
    case (Inl e)
    with one show ?thesis by simp
  next
    case (Inr u)
    obtain res where "upload_each (scripted locked) service carpeta_id ntotal (i + 1) rest w1
                        = Some res"
      using Cons.IH by blast
    with one Inr show ?thesis by (cases res) simp
  qed
qed

lemma scripted_upload_files_returns:
  "\<exists>res. upload_files CUENTAS (scripted locked) cuenta rutas w = Some res"
proof -
  have "\<exists>res. try_block CUENTAS (scripted locked) cuenta rutas w = Some res"
  proof (cases "get_service CUENTAS (scripted locked) cuenta w")
    case (Pair x w1)
    show ?thesis
    proof (cases x)
      case (Inl e)
      with Pair show ?thesis by (simp add: try_block_def)
    next
      case service: (Inr service)
      show ?thesis
      proof (cases "carpeta_of CUENTAS cuenta")
        case (Inl e)
        with Pair service show ?thesis by (simp add: try_block_def)
      next
        case (Inr carpeta_id)
        obtain r w2 evs where
          "upload_each (scripted locked) service carpeta_id (length rutas) 1 rutas w1
             = Some (r, w2, evs)"
          using scripted_upload_each_returns [of locked service carpeta_id "length rutas" 1 rutas w1]
          by (metis prod_cases3)
        with Pair service Inr show ?thesis by (cases r) (simp_all add: try_block_def)
      qed
    qed
  qed
  then obtain r w1 evs where "try_block CUENTAS (scripted locked) cuenta rutas w = Some (r, w1, evs)"
    by (metis prod_cases3)
  from upload_files_events [OF this] show ?thesis by blast
qed

end
